theory Spec2Isabelle
  imports Main "HOL-Library.AList" "HOL-Library.Char_ord" "HOL-Library.List_Lexorder"
begin

section \<open>Strings\<close>

text \<open>
  Python strings are modelled as \<open>string\<close>; the model covers ASCII text. The
  white space of \<^verbatim>\<open>str.strip\<close>, \<^verbatim>\<open>str.isspace\<close> and the regular expression
  class \<^verbatim>\<open>\s\<close> is, below code point 128, the characters 9 to 13, 28 to 31 and 32.
\<close>

definition isspace :: "char \<Rightarrow> bool" where
  "isspace c = (c \<in> set [CHR 0x09, CHR 0x0A, CHR 0x0B, CHR 0x0C, CHR 0x0D,
                          CHR 0x1C, CHR 0x1D, CHR 0x1E, CHR 0x1F, CHR 0x20])"

definition lower_char :: "char \<Rightarrow> char" where
  "lower_char c =
     (case map_of (zip ''ABCDEFGHIJKLMNOPQRSTUVWXYZ'' ''abcdefghijklmnopqrstuvwxyz'') c of
        None \<Rightarrow> c | Some d \<Rightarrow> d)"

text \<open>\<^verbatim>\<open>s.lower()\<close>\<close>
definition lower :: "string \<Rightarrow> string" where
  "lower s = map lower_char s"

text \<open>\<^verbatim>\<open>s.strip()\<close>\<close>
definition strip :: "string \<Rightarrow> string" where
  "strip s = rev (dropWhile isspace (rev (dropWhile isspace s)))"

text \<open>The key of the name index: \<^verbatim>\<open>name.lower().strip()\<close>.\<close>
definition name_key :: "string \<Rightarrow> string" where
  "name_key s = strip (lower s)"

text \<open>\<^verbatim>\<open>re.sub(r"\s+", " ", s)\<close>: every maximal run of white space becomes one blank.\<close>
function collapse_ws :: "string \<Rightarrow> string" where
  "collapse_ws [] = []"
| "collapse_ws (c # cs) =
     (if isspace c then CHR '' '' # collapse_ws (dropWhile isspace cs)
      else c # collapse_ws cs)"
  by pat_completeness auto
termination
  by (relation "measure length") (auto simp: length_dropWhile_le less_Suc_eq_le)

text \<open>\<^verbatim>\<open>_normalize_node_name\<close> of stages two and three:
  \<^verbatim>\<open>re.sub(r"\s+", " ", str(name)).strip().lower()\<close>.\<close>
definition normalize_node_name :: "string \<Rightarrow> string" where
  "normalize_node_name s = lower (strip (collapse_ws s))"

section \<open>The concept graph (modules/data\_structures.py)\<close>

datatype NodeStatus = TO_EXPAND | GROUNDED | TO_SYNTHESIZE

text \<open>
  The attribute \<^verbatim>\<open>grounded_definition\<close> is annotated as a list of strings, and the
  synthesizer compares it with the string \<^verbatim>\<open>"VerifiedKB"\<close>; both kinds of value are
  kept apart, since a Python list never equals a string.
\<close>
datatype pyval = PyStr string | PyList "string list"

text \<open>
  Nodes live in an arena: the identity of a node (its \<^verbatim>\<open>uuid4\<close> string, taken to be
  unique) is its index in \<open>nodes\<close>, and a reference to a node is that index.
\<close>
record ConceptNode =
  name :: string
  status :: NodeStatus
  dependencies :: "nat list"
  parent :: "nat option"
  grounded_definition :: pyval

record ConceptualGraph =
  root :: nat
  nodes :: "ConceptNode list"
  nodes_by_name :: "string \<rightharpoonup> nat"

text \<open>\<^verbatim>\<open>ConceptNode.__init__\<close>\<close>
definition ConceptNode_init :: "string \<Rightarrow> nat option \<Rightarrow> ConceptNode" where
  "ConceptNode_init nm par =
     \<lparr>name = strip nm, status = TO_EXPAND, dependencies = [], parent = par,
      grounded_definition = PyList []\<rparr>"

text \<open>\<^verbatim>\<open>ConceptualGraph.__init__\<close>\<close>
definition ConceptualGraph_init :: "string \<Rightarrow> ConceptualGraph" where
  "ConceptualGraph_init root_name =
     (let r = ConceptNode_init root_name None
      in \<lparr>root = 0, nodes = [r], nodes_by_name = [name_key (name r) \<mapsto> 0]\<rparr>)"

text \<open>
  \<^verbatim>\<open>add_node\<close>: the new node is created unconditionally, appended to the parent's
  dependencies, stored under its fresh identity, and the name index entry of its key is
  assigned. The result is the graph and the new node.
\<close>
definition add_node :: "ConceptualGraph \<Rightarrow> string \<Rightarrow> nat \<Rightarrow> ConceptualGraph \<times> nat" where
  "add_node g nm par =
     (let new_node = ConceptNode_init nm (Some par);
          new_id = length (nodes g);
          ns = (nodes g)[par := (nodes g ! par)
                  \<lparr>dependencies := dependencies (nodes g ! par) @ [new_id]\<rparr>]
      in (g\<lparr>nodes := ns @ [new_node],
            nodes_by_name := (nodes_by_name g)(name_key (name new_node) \<mapsto> new_id)\<rparr>,
          new_id))"

definition find_node_by_name :: "ConceptualGraph \<Rightarrow> string \<Rightarrow> nat option" where
  "find_node_by_name g nm = nodes_by_name g (name_key nm)"

text \<open>
  \<^verbatim>\<open>get_build_order\<close>. The first argument of the traversal bounds the depth of the
  recursion (Python's recursion limit); \<open>None\<close> stands for exceeding it, and for a
  reference to a node that the graph does not hold, which Python cannot produce.
\<close>
fun post_order_traverse ::
    "nat \<Rightarrow> ConceptualGraph \<Rightarrow> nat \<Rightarrow> nat set \<times> nat list \<Rightarrow> (nat set \<times> nat list) option"
  and traverse_deps ::
    "nat \<Rightarrow> ConceptualGraph \<Rightarrow> nat list \<Rightarrow> nat set \<times> nat list \<Rightarrow> (nat set \<times> nat list) option"
where
  "post_order_traverse 0 g n s = None"
| "post_order_traverse (Suc d) g n (visited, build_order) =
     (if n \<in> visited then Some (visited, build_order)
      else if length (nodes g) \<le> n then None
      else (case traverse_deps d g (dependencies (nodes g ! n)) (insert n visited, build_order) of
              None \<Rightarrow> None
            | Some (visited', build_order') \<Rightarrow> Some (visited', build_order' @ [n])))"
| "traverse_deps d g [] s = Some s"
| "traverse_deps d g (dep # deps) s =
     (case post_order_traverse d g dep s of
        None \<Rightarrow> None
      | Some s' \<Rightarrow> traverse_deps d g deps s')"

definition get_build_order :: "ConceptualGraph \<Rightarrow> nat list option" where
  "get_build_order g =
     map_option snd (post_order_traverse (Suc (length (nodes g))) g (root g) ({}, []))"

text \<open>\<open>precedes a b xs\<close>: \<open>b\<close> occurs in \<open>xs\<close> after the first occurrence of \<open>a\<close>.\<close>
definition precedes :: "'a \<Rightarrow> 'a \<Rightarrow> 'a list \<Rightarrow> bool" where
  "precedes a b xs = (b \<in> set (tl (dropWhile (\<lambda>x. x \<noteq> a) xs)))"

text \<open>The dependency edges of a graph, and graphs whose references all point into the arena.\<close>
definition depends_on :: "ConceptualGraph \<Rightarrow> (nat \<times> nat) set" where
  "depends_on g = {(n, d). n < length (nodes g) \<and> d \<in> set (dependencies (nodes g ! n))}"

definition graph_closed :: "ConceptualGraph \<Rightarrow> bool" where
  "graph_closed g =
     (root g < length (nodes g) \<and>
      list_all (\<lambda>nd. list_all (\<lambda>d. d < length (nodes g)) (dependencies nd)) (nodes g))"



section \<open>Stage one: decomposition (stage1\_planner.py)\<close>

text \<open>
  The reasoning capability and the reference search are external; they enter the model
  as functions of their arguments. \<^verbatim>\<open>image_path\<close> is \<open>None\<close> or a path.
\<close>
record GroundingResult =
  is_found :: bool
  definitions :: "string list"

record 'c GoTPlanner =
  run_expansion_module :: "string \<Rightarrow> string option \<Rightarrow> string list"
  lean_search :: "string \<Rightarrow> 'c"
  run_grounding_reasoner :: "string \<Rightarrow> 'c \<Rightarrow> string option \<Rightarrow> GroundingResult"
  planner_verified_kb :: "string set"

text \<open>Truth value of an optional string, as in \<^verbatim>\<open>if image_path:\<close>.\<close>
definition truthy :: "string option \<Rightarrow> bool" where
  "truthy p = (case p of None \<Rightarrow> False | Some s \<Rightarrow> s \<noteq> [])"

record planner_state =
  graph :: ConceptualGraph
  queue :: "nat list"
  queue_log :: "string set"

definition set_status :: "ConceptualGraph \<Rightarrow> nat \<Rightarrow> NodeStatus \<Rightarrow> ConceptualGraph" where
  "set_status g n st = g\<lparr>nodes := (nodes g)[n := (nodes g ! n)\<lparr>status := st\<rparr>]\<rparr>"

definition set_grounded :: "ConceptualGraph \<Rightarrow> nat \<Rightarrow> string list \<Rightarrow> ConceptualGraph" where
  "set_grounded g n defs =
     g\<lparr>nodes := (nodes g)[n := (nodes g ! n)\<lparr>status := GROUNDED,
                                              grounded_definition := PyList defs\<rparr>]\<rparr>"

definition append_dependency :: "ConceptualGraph \<Rightarrow> nat \<Rightarrow> nat \<Rightarrow> ConceptualGraph" where
  "append_dependency g n dep =
     g\<lparr>nodes := (nodes g)[n := (nodes g ! n)
                   \<lparr>dependencies := dependencies (nodes g ! n) @ [dep]\<rparr>]\<rparr>"

text \<open>A name that is not yet in the graph: \<^verbatim>\<open>add_node\<close>, then the queue.\<close>
definition enqueue_new :: "planner_state \<Rightarrow> string \<Rightarrow> nat \<Rightarrow> planner_state" where
  "enqueue_new st nm par =
     (let (g', new_node) = add_node (graph st) nm par
      in if name_key nm \<notin> queue_log st
         then st\<lparr>graph := g', queue := queue st @ [new_node],
                 queue_log := insert (name_key nm) (queue_log st)\<rparr>
         else st\<lparr>graph := g'\<rparr>)"

text \<open>Step 2 of \<^verbatim>\<open>run\<close>: the loop over the names the root expands to.\<close>
fun link_root_dependencies :: "planner_state \<Rightarrow> string list \<Rightarrow> planner_state" where
  "link_root_dependencies st [] = st"
| "link_root_dependencies st (nm # names) =
     (if name_key nm = [] then link_root_dependencies st names
      else (case find_node_by_name (graph st) (name_key nm) of
              Some existing_node \<Rightarrow>
                (if existing_node \<notin> set (dependencies (nodes (graph st) ! root (graph st)))
                 then link_root_dependencies
                        (st\<lparr>graph := append_dependency (graph st) (root (graph st)) existing_node\<rparr>)
                        names
                 else link_root_dependencies st names)
            | None \<Rightarrow>
                link_root_dependencies (enqueue_new st nm (root (graph st))) names))"

text \<open>Step 3c: the loop over the names the current node expands to.\<close>
fun link_dependencies :: "planner_state \<Rightarrow> nat \<Rightarrow> string list \<Rightarrow> planner_state" where
  "link_dependencies st current_node [] = st"
| "link_dependencies st current_node (nm # names) =
     (if name_key nm = [] then link_dependencies st current_node names
      else (case find_node_by_name (graph st) (name_key nm) of
              Some existing_node \<Rightarrow>
                (if existing_node = current_node then link_dependencies st current_node names
                 else if existing_node \<notin> set (dependencies (nodes (graph st) ! current_node))
                 then link_dependencies
                        (st\<lparr>graph := append_dependency (graph st) current_node existing_node\<rparr>)
                        current_node names
                 else link_dependencies st current_node names)
            | None \<Rightarrow>
                link_dependencies (enqueue_new st nm current_node) current_node names))"

text \<open>
  The two grounding channels; \<^verbatim>\<open>list(combined_defs)\<close> lists a set in an order that
  Python leaves open, rendered here as first occurrences.
\<close>
definition final_definitions ::
    "'c GoTPlanner \<Rightarrow> string \<Rightarrow> string option \<Rightarrow> string list" where
  "final_definitions p nm image_path =
     (let search_results = lean_search p nm;
          res_text = run_grounding_reasoner p nm search_results None;
          res_vision = (if truthy image_path
                        then Some (run_grounding_reasoner p nm search_results image_path)
                        else None);
          text_defs = (if is_found res_text \<and> definitions res_text \<noteq> []
                       then definitions res_text else []);
          vision_defs = (case res_vision of
                           None \<Rightarrow> []
                         | Some rv \<Rightarrow> if is_found rv \<and> definitions rv \<noteq> []
                                      then definitions rv else [])
      in remdups (text_defs @ vision_defs))"

text \<open>One round of the \<^verbatim>\<open>while queue\<close> loop, for the node taken from the queue.\<close>
definition process_node ::
    "'c GoTPlanner \<Rightarrow> string option \<Rightarrow> planner_state \<Rightarrow> nat \<Rightarrow> planner_state" where
  "process_node p image_path st current_node =
     (let nm = name (nodes (graph st) ! current_node)
      in if name_key nm \<in> planner_verified_kb p
         then st\<lparr>graph := set_grounded (graph st) current_node [''VerifiedKB'']\<rparr>
         else (let defs = final_definitions p nm image_path
               in if defs \<noteq> []
                  then st\<lparr>graph := set_grounded (graph st) current_node defs\<rparr>
                  else link_dependencies
                         (st\<lparr>graph := set_status (graph st) current_node TO_SYNTHESIZE\<rparr>)
                         current_node
                         (run_expansion_module p nm image_path)))"

text \<open>
  The \<^verbatim>\<open>while queue\<close> loop. It need not end (every expansion may name new concepts),
  so it runs on fuel: \<open>None\<close> when the fuel is used up before the queue is empty.
\<close>
fun planner_loop ::
    "nat \<Rightarrow> 'c GoTPlanner \<Rightarrow> string option \<Rightarrow> planner_state \<Rightarrow> planner_state option" where
  "planner_loop fuel p image_path st =
     (case queue st of
        [] \<Rightarrow> Some st
      | current_node # rest \<Rightarrow>
          (case fuel of
             0 \<Rightarrow> None
           | Suc fuel' \<Rightarrow>
               planner_loop fuel' p image_path
                 (process_node p image_path (st\<lparr>queue := rest\<rparr>) current_node)))"

text \<open>\<^verbatim>\<open>GoTPlanner.run\<close>\<close>
definition GoTPlanner_run ::
    "nat \<Rightarrow> 'c GoTPlanner \<Rightarrow> string \<Rightarrow> string option \<Rightarrow> ConceptualGraph option" where
  "GoTPlanner_run fuel p informal_statement image_path =
     (let g0 = ConceptualGraph_init informal_statement;
          g1 = set_status g0 (root g0) TO_SYNTHESIZE;
          dependency_names = run_expansion_module p (name (nodes g1 ! root g1)) image_path;
          st = link_root_dependencies
                 \<lparr>graph = g1, queue = [],
                  queue_log = {name_key (name (nodes g1 ! root g1))}\<rparr>
                 dependency_names
      in map_option graph (planner_loop fuel p image_path st))"

text \<open>
  The name index is exact when it sends the key of every node to that node and holds
  references into the arena only.
\<close>
definition name_index_ok :: "ConceptualGraph \<Rightarrow> bool" where
  "name_index_ok g =
     ((\<forall>i<length (nodes g). nodes_by_name g (name_key (name (nodes g ! i))) = Some i) \<and>
      (\<forall>k e. nodes_by_name g k = Some e \<longrightarrow> e < length (nodes g)))"

definition planner_inv :: "ConceptualGraph \<Rightarrow> bool" where
  "planner_inv g = (graph_closed g \<and> name_index_ok g)"

subsection \<open>Example decompositions\<close>

text \<open>A reasoning capability that grounds nothing and expands names by a table.\<close>
definition table_planner :: "(string \<times> string list) list \<Rightarrow> unit GoTPlanner" where
  "table_planner tbl =
     \<lparr>run_expansion_module = (\<lambda>nm img. case map_of tbl nm of None \<Rightarrow> [] | Some ds \<Rightarrow> ds),
      lean_search = (\<lambda>nm. ()),
      run_grounding_reasoner = (\<lambda>nm cands img. \<lparr>is_found = False, definitions = []\<rparr>),
      planner_verified_kb = {}\<rparr>"


text \<open>Two siblings \<open>a\<close> and \<open>b\<close> both name the concept \<open>c\<close>.\<close>
definition sibling_graph :: ConceptualGraph where
  "sibling_graph =
     the (GoTPlanner_run 5
            (table_planner [(''s'', [''a'', ''b'']), (''a'', [''c'']), (''b'', [''C ''])])
            ''s'' None)"

section \<open>The knowledge base (modules/knowledge\_base.py)\<close>

text \<open>
  Values read from and written to the JSON file. A Python \<^verbatim>\<open>dict\<close> is an association
  list in insertion order; \<open>AList.update\<close> is the assignment \<^verbatim>\<open>d[k] = v\<close>.
\<close>
datatype json = JNull | JBool bool | JNum int | JStr string | JArr "json list"
  | JObj "(string \<times> json) list"

text \<open>\<^verbatim>\<open>isinstance(v, dict)\<close>\<close>
fun is_dict :: "json \<Rightarrow> bool" where
  "is_dict (JObj items) = True"
| "is_dict v = False"

text \<open>The dictionary that a comprehension builds from a sequence of items.\<close>
definition dict_of_items :: "('k \<times> 'v) list \<Rightarrow> ('k \<times> 'v) list" where
  "dict_of_items items = foldl (\<lambda>d (k, v). AList.update k v d) [] items"

text \<open>
  What is found at \<^verbatim>\<open>KB_FILE_PATH\<close>: no file, a file that cannot be read
  (\<^verbatim>\<open>IOError\<close>), a file that is not JSON (\<^verbatim>\<open>JSONDecodeError\<close>), or a JSON value.
\<close>
datatype kb_file = NoFile | Unreadable | NotJson | Content json

definition load_knowledge_base :: "kb_file \<Rightarrow> (string \<times> json) list" where
  "load_knowledge_base f =
     (case f of
        NoFile \<Rightarrow> []
      | Unreadable \<Rightarrow> []
      | NotJson \<Rightarrow> []
      | Content data \<Rightarrow>
          (case data of
             JObj items \<Rightarrow> dict_of_items (filter (\<lambda>(k, v). is_dict v) items)
           | _ \<Rightarrow> []))"

text \<open>The loop of \<^verbatim>\<open>save_verified_nodes\<close> over the items of the run cache.\<close>
fun merge_verified_nodes ::
    "ConceptualGraph \<Rightarrow> string \<Rightarrow> (string \<times> string) list \<Rightarrow> (string \<times> json) list
      \<Rightarrow> (string \<times> json) list" where
  "merge_verified_nodes g root_key [] existing_kb = existing_kb"
| "merge_verified_nodes g root_key ((node_key, code_chunk) # rest) existing_kb =
     (if node_key = root_key then merge_verified_nodes g root_key rest existing_kb
      else (case find_node_by_name g node_key of
              None \<Rightarrow> merge_verified_nodes g root_key rest existing_kb
            | Some original_node \<Rightarrow>
                (let dep_keys = map (\<lambda>dep_node. name_key (name (nodes g ! dep_node)))
                                  (dependencies (nodes g ! original_node));
                     kb_entry = JObj [(''code'', JStr code_chunk),
                                      (''deps'', JArr (map JStr dep_keys))]
                 in merge_verified_nodes g root_key rest
                      (AList.update node_key kb_entry existing_kb))))"

text \<open>
  \<^verbatim>\<open>save_verified_nodes\<close>, as a function of the file found and of whether the file can
  be written; when it cannot (\<^verbatim>\<open>IOError\<close>), the file stays as it was.
\<close>
definition save_verified_nodes ::
    "(string \<times> string) list \<Rightarrow> ConceptualGraph \<Rightarrow> kb_file \<Rightarrow> bool \<Rightarrow> kb_file" where
  "save_verified_nodes synthesized_cache g f writable =
     (let existing_kb = load_knowledge_base f;
          root_key = name_key (name (nodes g ! root g));
          merged = merge_verified_nodes g root_key synthesized_cache existing_kb
      in if writable then Content (JObj merged) else f)"

subsection \<open>Example knowledge bases\<close>



section \<open>More string functions\<close>

text \<open>\<^verbatim>\<open>sep.join(xs)\<close>\<close>
fun join :: "string \<Rightarrow> string list \<Rightarrow> string" where
  "join sep [] = []"
| "join sep [x] = x"
| "join sep (x # y # ys) = x @ sep @ join sep (y # ys)"

text \<open>\<^verbatim>\<open>sub in s\<close> for strings\<close>
fun is_substring :: "string \<Rightarrow> string \<Rightarrow> bool" where
  "is_substring sub [] = (sub = [])"
| "is_substring sub (c # cs) = (take (length sub) (c # cs) = sub \<or> is_substring sub cs)"

text \<open>
  The lines of a text as the regular expression flag \<^verbatim>\<open>re.MULTILINE\<close> sees them: the
  pieces between line feeds.
\<close>
fun lines_of :: "string \<Rightarrow> string \<Rightarrow> string list" where
  "lines_of cur [] = [cur]"
| "lines_of cur (c # cs) =
     (if c = CHR 0x0A then cur # lines_of [] cs else lines_of (cur @ [c]) cs)"

text \<open>
  \<^verbatim>\<open>s.splitlines()\<close>: below code point 128 a line ends at the characters 10 to 13 and
  28 to 30, a carriage return followed by a line feed counts once, and no empty line is
  reported after the last line end.
\<close>
definition is_linebreak :: "char \<Rightarrow> bool" where
  "is_linebreak c = (c \<in> set [CHR 0x0A, CHR 0x0B, CHR 0x0C, CHR 0x0D, CHR 0x1C, CHR 0x1D, CHR 0x1E])"

fun splitlines_from :: "string \<Rightarrow> string \<Rightarrow> string list" where
  "splitlines_from cur [] = (if cur = [] then [] else [cur])"
| "splitlines_from cur [c] = (if is_linebreak c then [cur] else [cur @ [c]])"
| "splitlines_from cur (c # d # cs) =
     (if c = CHR 0x0D \<and> d = CHR 0x0A then cur # splitlines_from [] cs
      else if is_linebreak c then cur # splitlines_from [] (d # cs)
      else splitlines_from (cur @ [c]) (d # cs))"

definition splitlines :: "string \<Rightarrow> string list" where
  "splitlines s = splitlines_from [] s"

text \<open>
  The pattern \<^verbatim>\<open>^(import .*)$\<close> under \<^verbatim>\<open>re.MULTILINE\<close> matches exactly the lines that
  start with \<^verbatim>\<open>import\<close> and a blank: \<^verbatim>\<open>re.findall\<close> returns them, \<^verbatim>\<open>re.sub\<close> with the
  empty string empties them.
\<close>
definition is_import_statement :: "string \<Rightarrow> bool" where
  "is_import_statement ln = (take 7 ln = ''import '')"

definition find_import_statements :: "string \<Rightarrow> string list" where
  "find_import_statements code = filter is_import_statement (lines_of [] code)"

definition remove_import_statements :: "string \<Rightarrow> string" where
  "remove_import_statements code =
     join [CHR 0x0A] (map (\<lambda>ln. if is_import_statement ln then [] else ln) (lines_of [] code))"

text \<open>
  \<^verbatim>\<open>re.match(r"^\s*import\s+.+", ln)\<close> on one line \<open>ln\<close> of \<open>splitlines\<close>: after
  leading white space the word \<^verbatim>\<open>import\<close>, then white space, then at least one more
  character.
\<close>
definition is_import_line :: "string \<Rightarrow> bool" where
  "is_import_line ln =
     (let rest = dropWhile isspace ln
      in take 6 rest = ''import'' \<and>
         (case drop 6 rest of [] \<Rightarrow> False | w # ws \<Rightarrow> isspace w \<and> ws \<noteq> []))"

text \<open>The first occurrences of a list, in order (the \<^verbatim>\<open>seen\<close> loops).\<close>
definition dedup :: "'a list \<Rightarrow> 'a list" where
  "dedup xs = rev (remdups (rev xs))"

section \<open>Stage two: synthesis (stage2\_synthesizer.py)\<close>

definition BASE_IMPORTS :: "string list" where
  "BASE_IMPORTS =
     [''import Mathlib'',
      ''import PhysLean.Units.Basic'',
      ''import PhysLean.Units.Dimension'',
      ''import PhysLean.Units.WithDim.Basic'',
      ''import PhysLean.Units.WithDim.Mass'',
      ''import PhysLean.Units.WithDim.Velocity'',
      ''import PhysLean.Units.WithDim.Energy'',
      ''import PhysLean.SpaceAndTime.Space.Basic'',
      ''import PhysLean.SpaceAndTime.Time.Basic'',
      ''import PhysLean.SpaceAndTime.Space.Derivatives.Basic'',
      ''import PhysLean.Mathematics.InnerProductSpace.Basic'',
      ''import PhysLean.ClassicalMechanics.Basic'',
      ''import PhysLean.ClassicalMechanics.EulerLagrange'',
      ''import PhysLean.ClassicalMechanics.HarmonicOscillator.Basic'',
      ''import PhysLean.ClassicalMechanics.RigidBody.Basic'',
      ''import PhysLean.Electromagnetism.Basic'',
      ''import PhysLean.Electromagnetism.Electrostatics.Basic'',
      ''import PhysLean.Electromagnetism.Dynamics.Basic'',
      ''import PhysLean.Thermodynamics.Basic'',
      ''import PhysLean.Thermodynamics.Temperature.Basic'',
      ''import PhysLean.QuantumMechanics.FiniteTarget.Basic'',
      ''import PhysLean.QuantumMechanics.OneDimension.HarmonicOscillator.Basic'',
      ''import PhysLean.Relativity.LorentzGroup.Basic'',
      ''import PhysLean.Relativity.Special.ProperTime'',
      ''open Real InnerProductSpace'',
      ''open PhysLean'',
      ''noncomputable section'']"

text \<open>
  The reasoning capability (modules/llm\_modules.py) and the compiler
  (modules/external\_tools.py) are external. Their methods catch every exception they
  meet, so each is a function from its arguments to its result.
\<close>
record LLMModules =
  run_synthesis_module :: "string \<Rightarrow> string \<Rightarrow> string option \<Rightarrow> string"
  run_reflection_module :: "string \<Rightarrow> string \<Rightarrow> string \<Rightarrow> string \<Rightarrow> string"
  run_back_translation :: "string \<Rightarrow> string \<Rightarrow> string \<Rightarrow> string"
  run_merge_back_translations :: "(string \<times> string) list \<Rightarrow> string"
  run_semantic_check :: "string \<Rightarrow> string \<Rightarrow> string option \<Rightarrow> string"

record LeanCompilationResult =
  comp_status :: string
  error_message :: "string option"

text \<open>
  The synthesizer. The reasoning capability may answer the same request differently each
  time, so every worker has its own \<open>llm\<close>. The worker threads run concurrently; what the
  interleaving decides is given by two further functions: whether a worker finds the stop
  event set at the start of an attempt, and the order in which the workers of a node
  complete. \<open>json_loads\<close> is \<^verbatim>\<open>json.loads\<close>, with \<open>None\<close> for \<^verbatim>\<open>JSONDecodeError\<close>;
  \<open>recursion_limit\<close> bounds the depth of the splice from the knowledge base.
\<close>
record GoTSynthesizer =
  llm :: "nat \<Rightarrow> LLMModules"
  compile_code :: "string \<Rightarrow> nat \<Rightarrow> LeanCompilationResult"
  verified_kb :: "(string \<times> (string \<times> json) list) list"
  json_loads :: "string \<Rightarrow> json option"
  stop_event_is_set :: "string \<Rightarrow> nat \<Rightarrow> nat \<Rightarrow> bool"
  completion_order :: "string \<Rightarrow> nat list"
  CONCURRENT_WORKERS :: nat
  ATTEMPTS_PER_WORKER :: nat
  recursion_limit :: nat

text \<open>\<^verbatim>\<open>d.get(k, default)\<close>\<close>
definition dict_get :: "('k \<times> 'v) list \<Rightarrow> 'k \<Rightarrow> 'v \<Rightarrow> 'v" where
  "dict_get d k dflt = (case map_of d k of None \<Rightarrow> dflt | Some v \<Rightarrow> v)"

record worker_args =
  worker_id :: nat
  node_name :: string
  prompt_context :: string
  dep_chunks :: "string list"
  base_imports :: "string list"
  image_path :: "string option"
  original_question :: string
  is_root_node :: bool

text \<open>The external calls of a worker, in the order in which it makes them.\<close>
datatype call = Generate | Reflect | BackTranslate | SemanticCheck | Compile string

text \<open>The text a worker sends to the compiler for the candidate \<open>current_code\<close>.\<close>
definition full_code_to_compile :: "string list \<Rightarrow> string list \<Rightarrow> string \<Rightarrow> string" where
  "full_code_to_compile imports chunks current_code =
     (let import_statements = find_import_statements current_code;
          code_without_imports = strip (remove_import_statements current_code);
          compile_imports =
            dedup (filter (\<lambda>ln. ln \<noteq> []) (map strip (imports @ import_statements)))
      in join [CHR 0x0A, CHR 0x0A]
           (filter (\<lambda>s. s \<noteq> [])
              [join [CHR 0x0A] compile_imports, join [CHR 0x0A, CHR 0x0A] chunks,
               code_without_imports]))"

text \<open>
  The semantic gate of the first attempt on the root node. \<open>Abort\<close> is the early
  \<^verbatim>\<open>return None\<close>; \<open>Proceed\<close> goes on to the compiler (also after a
  \<^verbatim>\<open>JSONDecodeError\<close>); \<open>Raise\<close> is the \<^verbatim>\<open>AttributeError\<close> of \<^verbatim>\<open>report.get\<close> on a
  value that is no dictionary, caught by the \<^verbatim>\<open>except Exception\<close> of the attempt.
\<close>
datatype gate = Abort | Proceed | Raise

definition semantic_gate :: "GoTSynthesizer \<Rightarrow> worker_args \<Rightarrow> string \<Rightarrow> gate" where
  "semantic_gate S a current_code =
     (let back_trans = run_back_translation (llm S (worker_id a)) (node_name a) current_code
                         ''(Context omitted for pre-check)'';
          semantic_report_str = run_semantic_check (llm S (worker_id a)) (original_question a)
                                  back_trans (image_path a)
      in (case json_loads S semantic_report_str of
            None \<Rightarrow> Proceed
          | Some (JObj report) \<Rightarrow>
              if dict_get report ''consistency_level'' (JStr ''level_3'') = JStr ''level_3''
              then Abort else Proceed
          | Some _ \<Rightarrow> Raise))"

text \<open>
  The attempts of \<^verbatim>\<open>_synthesis_worker\<close>: \<open>remaining\<close> attempts are left, \<open>attempt\<close> is
  the loop index. The result is what the worker returns and the calls it has made.
\<close>
fun synthesis_attempts ::
    "GoTSynthesizer \<Rightarrow> worker_args \<Rightarrow> nat \<Rightarrow> nat \<Rightarrow> string \<Rightarrow> string \<Rightarrow> call list
      \<Rightarrow> string option \<times> call list" where
  "synthesis_attempts S a 0 attempt failed_code err calls = (None, calls)"
| "synthesis_attempts S a (Suc remaining) attempt failed_code err calls =
     (if stop_event_is_set S (node_name a) (worker_id a) attempt then (None, calls)
      else
        (let current_code =
               (if attempt = 0
                then run_synthesis_module (llm S (worker_id a)) (node_name a)
                       (prompt_context a) (image_path a)
                else run_reflection_module (llm S (worker_id a)) (node_name a)
                       (prompt_context a) failed_code err);
             calls1 = calls @ [if attempt = 0 then Generate else Reflect]
         in if strip current_code = []
            then synthesis_attempts S a remaining (Suc attempt) current_code
                   ''Empty code from LLM.'' calls1
            else
              (let gated = (attempt = 0 \<and> original_question a \<noteq> [] \<and> is_root_node a);
                   calls2 = calls1 @ (if gated then [BackTranslate, SemanticCheck] else [])
               in (case (if gated then semantic_gate S a current_code else Proceed) of
                     Abort \<Rightarrow> (None, calls2)
                   | Raise \<Rightarrow>
                       synthesis_attempts S a remaining (Suc attempt) failed_code
                         ''AttributeError'' calls2
                   | Proceed \<Rightarrow>
                       (let full_code = full_code_to_compile (base_imports a) (dep_chunks a)
                                          current_code;
                            comp_result = compile_code S full_code (worker_id a);
                            calls3 = calls2 @ [Compile full_code]
                        in if comp_status comp_result = ''success''
                           then (Some (strip (remove_import_statements current_code)), calls3)
                           else synthesis_attempts S a remaining (Suc attempt) current_code
                                  (case error_message comp_result of
                                     None \<Rightarrow> ''Unknown error''
                                   | Some e \<Rightarrow> if e = [] then ''Unknown error'' else e)
                                  calls3)))))"

definition synthesis_worker :: "GoTSynthesizer \<Rightarrow> worker_args \<Rightarrow> string option \<times> call list" where
  "synthesis_worker S a = synthesis_attempts S a (ATTEMPTS_PER_WORKER S) 0 [] [] []"

text \<open>\<^verbatim>\<open>if result:\<close> for what a worker returns.\<close>
definition truthy_result :: "string option \<Rightarrow> bool" where
  "truthy_result r = (case r of None \<Rightarrow> False | Some code \<Rightarrow> code \<noteq> [])"

text \<open>
  The pool of one node: every worker runs, and \<^verbatim>\<open>success_code\<close> is the first result
  in completion order that is true. The second component lists the calls of each worker.
\<close>
definition run_worker_pool ::
    "GoTSynthesizer \<Rightarrow> worker_args \<Rightarrow> string option \<times> call list list" where
  "run_worker_pool S a =
     (let outcomes = map (\<lambda>i. synthesis_worker S (a\<lparr>worker_id := i\<rparr>))
                       [0..<CONCURRENT_WORKERS S];
          completed = map (\<lambda>i. fst (outcomes ! i))
                        (filter (\<lambda>i. i < CONCURRENT_WORKERS S) (completion_order S (node_name a)));
          success_code = (case filter truthy_result completed of [] \<Rightarrow> None | r # rs \<Rightarrow> r)
      in (success_code, map snd outcomes))"

subsection \<open>An example reasoning capability and synthesizer\<close>

text \<open>
  The example capability writes a definition for every name, describes code by the name
  of its node, and gives the fixed answer \<open>verdict\<close> to every consistency check;
  \<open>example_json_loads\<close> reads the three levels and the empty list, and nothing else.
\<close>
definition example_llm :: "string \<Rightarrow> LLMModules" where
  "example_llm verdict =
     \<lparr>run_synthesis_module = (\<lambda>nm ctx img. ''def x := 0 -- '' @ nm),
      run_reflection_module = (\<lambda>nm ctx failed err. ''def y := 0 -- '' @ nm),
      run_back_translation = (\<lambda>nm code ctx. ''about '' @ nm),
      run_merge_back_translations = (\<lambda>segments. join ''; '' (map snd segments)),
      run_semantic_check = (\<lambda>original back img. verdict)\<rparr>"

definition example_json_loads :: "string \<Rightarrow> json option" where
  "example_json_loads s =
     (if s \<in> set [''level_1'', ''level_2'', ''level_3'']
      then Some (JObj [(''consistency_level'', JStr s)])
      else if s = ''[]'' then Some (JArr [])
      else None)"

definition example_synthesizer :: "string \<Rightarrow> bool \<Rightarrow> GoTSynthesizer" where
  "example_synthesizer verdict accept =
     \<lparr>llm = (\<lambda>i. example_llm verdict),
      compile_code = (\<lambda>code i. if accept then \<lparr>comp_status = ''success'', error_message = None\<rparr>
                                else \<lparr>comp_status = ''failure'', error_message = Some ''error: no''\<rparr>),
      verified_kb = [],
      json_loads = example_json_loads,
      stop_event_is_set = (\<lambda>nm i attempt. False),
      completion_order = (\<lambda>nm. [0, 1]),
      CONCURRENT_WORKERS = 2,
      ATTEMPTS_PER_WORKER = 2,
      recursion_limit = 1000\<rparr>"

definition example_root_worker :: worker_args where
  "example_root_worker =
     \<lparr>worker_id = 0, node_name = ''s'', prompt_context = [], dep_chunks = [],
      base_imports = BASE_IMPORTS, image_path = None, original_question = ''s'',
      is_root_node = True\<rparr>"

subsection \<open>Dependency context\<close>

text \<open>
  The pattern \<^verbatim>\<open>^\s*(def|theorem|lemma|structure|inductive|namespace)\b\<close> under
  \<^verbatim>\<open>re.MULTILINE\<close>, searched in a text: some line has, after leading white space, one
  of the keywords, followed by the end of the text or by a character that is no letter,
  digit or underscore.
\<close>
definition is_word_char :: "char \<Rightarrow> bool" where
  "is_word_char c =
     (c \<in> set ''abcdefghijklmnopqrstuvwxyzABCDEFGHIJKLMNOPQRSTUVWXYZ0123456789_'')"

definition code_like :: "string \<Rightarrow> bool" where
  "code_like code =
     list_ex (\<lambda>ln. let rest = dropWhile isspace ln
                   in list_ex (\<lambda>kw. take (length kw) rest = kw \<and>
                                      (case drop (length kw) rest of
                                         [] \<Rightarrow> True | c # cs \<Rightarrow> \<not> is_word_char c))
                        [''def'', ''theorem'', ''lemma'', ''structure'', ''inductive'',
                         ''namespace''])
       (lines_of [] code)"

text \<open>
  The search \<^verbatim>\<open>dfs\<close> of \<^verbatim>\<open>_collect_transitive_synthesized_code\<close>, on the state
  \<^verbatim>\<open>(seen, order, missing_not_grounded)\<close>. The first argument bounds the depth of the
  recursion, as in \<open>post_order_traverse\<close>.
\<close>
fun collect_dfs ::
    "nat \<Rightarrow> GoTSynthesizer \<Rightarrow> ConceptualGraph \<Rightarrow> (string \<times> string) list \<Rightarrow> string set \<Rightarrow> nat
      \<Rightarrow> string set \<times> string list \<times> string set
      \<Rightarrow> (string set \<times> string list \<times> string set) option"
  and collect_deps ::
    "nat \<Rightarrow> GoTSynthesizer \<Rightarrow> ConceptualGraph \<Rightarrow> (string \<times> string) list \<Rightarrow> string set
      \<Rightarrow> nat list \<Rightarrow> string set \<times> string list \<times> string set
      \<Rightarrow> (string set \<times> string list \<times> string set) option"
where
  "collect_dfs 0 S g cache grounded n st = None"
| "collect_dfs (Suc d) S g cache grounded n st =
     (if length (nodes g) \<le> n then None
      else collect_deps d S g cache grounded (dependencies (nodes g ! n)) st)"
| "collect_deps d S g cache grounded [] st = Some st"
| "collect_deps d S g cache grounded (dep # deps) (seen, ord, missing) =
     (if length (nodes g) \<le> dep then None
      else
        (let dn = normalize_node_name (name (nodes g ! dep))
         in if dn \<notin> seen
            then (case collect_dfs d S g cache grounded dep (insert dn seen, ord, missing) of
                    None \<Rightarrow> None
                  | Some (seen', ord', missing') \<Rightarrow>
                      collect_deps d S g cache grounded deps
                        (if dn \<in> fst ` set cache then (seen', ord' @ [dn], missing')
                         else if dn \<in> grounded then (seen', ord', missing')
                         else if dn \<in> fst ` set (verified_kb S) then (seen', ord', missing')
                         else (seen', ord', insert dn missing')))
            else collect_deps d S g cache grounded deps (seen, ord, missing)))"

text \<open>\<^verbatim>\<open>_collect_transitive_synthesized_code\<close>: the chunks and the sorted missing names.\<close>
definition collect_transitive_synthesized_code ::
    "GoTSynthesizer \<Rightarrow> ConceptualGraph \<Rightarrow> nat \<Rightarrow> (string \<times> string) list \<Rightarrow> string set
      \<Rightarrow> (string list \<times> string list) option" where
  "collect_transitive_synthesized_code S g n cache grounded =
     (case collect_dfs (Suc (length (nodes g))) S g cache grounded n ({}, [], {}) of
        None \<Rightarrow> None
      | Some (seen, ord, missing) \<Rightarrow>
          Some (map (\<lambda>dep_name. ''-- [Dep] '' @ dep_name @ [CHR 0x0A] @ dict_get cache dep_name [])
                  (filter (\<lambda>dep_name. dict_get cache dep_name [] \<noteq> [] \<and>
                                       code_like (dict_get cache dep_name []))
                     ord),
                sorted_list_of_set missing))"

text \<open>The search of \<^verbatim>\<open>_collect_transitive_grounded\<close>, on the state \<^verbatim>\<open>(seen, order)\<close>.\<close>
fun grounded_dfs ::
    "nat \<Rightarrow> ConceptualGraph \<Rightarrow> (string \<times> string) list \<Rightarrow> string set \<Rightarrow> nat
      \<Rightarrow> string set \<times> string list \<Rightarrow> (string set \<times> string list) option"
  and grounded_deps ::
    "nat \<Rightarrow> ConceptualGraph \<Rightarrow> (string \<times> string) list \<Rightarrow> string set \<Rightarrow> nat list
      \<Rightarrow> string set \<times> string list \<Rightarrow> (string set \<times> string list) option"
where
  "grounded_dfs 0 g cache grounded n st = None"
| "grounded_dfs (Suc d) g cache grounded n st =
     (if length (nodes g) \<le> n then None
      else grounded_deps d g cache grounded (dependencies (nodes g ! n)) st)"
| "grounded_deps d g cache grounded [] st = Some st"
| "grounded_deps d g cache grounded (dep # deps) (seen, ord) =
     (if length (nodes g) \<le> dep then None
      else
        (let dn = normalize_node_name (name (nodes g ! dep))
         in if dn \<notin> seen
            then (case grounded_dfs d g cache grounded dep (insert dn seen, ord) of
                    None \<Rightarrow> None
                  | Some (seen', ord') \<Rightarrow>
                      grounded_deps d g cache grounded deps
                        (if dn \<in> grounded \<and> dn \<notin> fst ` set cache
                         then (seen', ord' @ [dn]) else (seen', ord')))
            else grounded_deps d g cache grounded deps (seen, ord)))"

definition collect_transitive_grounded ::
    "ConceptualGraph \<Rightarrow> nat \<Rightarrow> (string \<times> string) list \<Rightarrow> string set \<Rightarrow> string list option" where
  "collect_transitive_grounded g n cache grounded =
     map_option (\<lambda>st. dedup (snd st))
       (grounded_dfs (Suc (length (nodes g))) g cache grounded n ({}, []))"

text \<open>Truth value of \<^verbatim>\<open>grounded_definition\<close>.\<close>
fun truthy_pyval :: "pyval \<Rightarrow> bool" where
  "truthy_pyval (PyStr s) = (s \<noteq> [])"
| "truthy_pyval (PyList xs) = (xs \<noteq> [])"

text \<open>The line that the prompt context gets for one grounded name.\<close>
definition grounded_reference :: "ConceptualGraph \<Rightarrow> string \<Rightarrow> string" where
  "grounded_reference g g_name =
     (case find_node_by_name g g_name of
        None \<Rightarrow> ''- '' @ g_name @ '' (Standard Mathlib concept)'' @ [CHR 0x0A]
      | Some g_node \<Rightarrow>
          if truthy_pyval (grounded_definition (nodes g ! g_node))
          then (case grounded_definition (nodes g ! g_node) of
                  PyList ds \<Rightarrow> ''- '' @ g_name @ '' corresponds to: '' @ join '', '' ds @ [CHR 0x0A]
                | PyStr s \<Rightarrow> ''- '' @ g_name @ '' corresponds to: '' @ s @ [CHR 0x0A])
          else ''- '' @ g_name @ '' (Standard Mathlib concept)'' @ [CHR 0x0A])"

definition build_prompt_context :: "ConceptualGraph \<Rightarrow> string list \<Rightarrow> string list \<Rightarrow> string" where
  "build_prompt_context g chunks grounded_names =
     join [CHR 0x0A, CHR 0x0A] chunks @
     (if grounded_names \<noteq> []
      then [CHR 0x0A, CHR 0x0A] @ ''/-- Grounded references available:'' @ [CHR 0x0A] @
           concat (map (grounded_reference g) grounded_names) @ ''--/''
      else [])"

subsection \<open>The run\<close>

text \<open>
  The state of \<^verbatim>\<open>GoTSynthesizer.run\<close>. Two components are not variables of the
  program but records of what it does: \<open>cache_writes\<close> lists the key of every assignment
  to \<^verbatim>\<open>synthesized_cache\<close>, in order, and \<open>pools\<close> has one entry for every worker pool
  that was launched, with the name of its node and the calls of each of its workers.
\<close>
record synth_state =
  final_code_pieces :: "string list"
  synthesized_cache :: "(string \<times> string) list"
  grounded_set :: "string set"
  cache_writes :: "string list"
  pools :: "(string \<times> call list list) list"

definition separator_line :: string where
  "separator_line = ''-- '' @ replicate 30 (CHR ''-'')"

text \<open>A list of strings held in the knowledge base, or \<open>None\<close> for any other value.\<close>
fun json_strings :: "json list \<Rightarrow> string list option" where
  "json_strings [] = Some []"
| "json_strings (JStr s # js) = map_option ((#) s) (json_strings js)"
| "json_strings (j # js) = None"

text \<open>
  \<^verbatim>\<open>_recursively_paste_from_kb\<close>. \<open>None\<close> stands for an exception: the recursion limit
  is exceeded (the entries of the knowledge base may depend on each other in a cycle), or
  an entry holds something else than a text under \<open>code\<close> and a list of names under
  \<open>deps\<close>.
\<close>
fun recursively_paste_from_kb ::
    "nat \<Rightarrow> GoTSynthesizer \<Rightarrow> string \<Rightarrow> synth_state \<Rightarrow> synth_state option"
  and paste_dependencies ::
    "nat \<Rightarrow> GoTSynthesizer \<Rightarrow> string list \<Rightarrow> synth_state \<Rightarrow> synth_state option"
where
  "recursively_paste_from_kb 0 S node_key st = None"
| "recursively_paste_from_kb (Suc d) S node_key st =
     (if node_key \<in> fst ` set (synthesized_cache st) \<or> node_key \<in> grounded_set st then Some st
      else
        (case map_of (verified_kb S) node_key of
           None \<Rightarrow> Some (st\<lparr>grounded_set := insert node_key (grounded_set st)\<rparr>)
         | Some kb_entry \<Rightarrow>
             if kb_entry = [] \<or> ''code'' \<notin> fst ` set kb_entry \<or> ''deps'' \<notin> fst ` set kb_entry
             then Some (st\<lparr>grounded_set := insert node_key (grounded_set st)\<rparr>)
             else
               (case (dict_get kb_entry ''deps'' (JArr []), dict_get kb_entry ''code'' JNull) of
                  (JArr deps, JStr code_from_kb) \<Rightarrow>
                    (case json_strings deps of
                       None \<Rightarrow> None
                     | Some dep_keys \<Rightarrow>
                         (case paste_dependencies d S dep_keys st of
                            None \<Rightarrow> None
                          | Some st' \<Rightarrow>
                              Some (st'\<lparr>final_code_pieces := final_code_pieces st' @
                                          [separator_line @ [CHR 0x0A] @ ''-- Node (from KB): '' @
                                           node_key @ [CHR 0x0A] @ separator_line @ [CHR 0x0A] @
                                           code_from_kb],
                                        synthesized_cache :=
                                          AList.update (normalize_node_name node_key) code_from_kb
                                            (synthesized_cache st'),
                                        cache_writes := cache_writes st' @
                                          [normalize_node_name node_key]\<rparr>)))
                | _ \<Rightarrow> None)))"
| "paste_dependencies d S [] st = Some st"
| "paste_dependencies d S (dep_key # dep_keys) st =
     (case recursively_paste_from_kb d S dep_key st of
        None \<Rightarrow> None
      | Some st' \<Rightarrow> paste_dependencies d S dep_keys st')"

text \<open>The arguments that \<^verbatim>\<open>run\<close> submits for the workers of a node.\<close>
definition node_worker_args ::
    "ConceptualGraph \<Rightarrow> string option \<Rightarrow> nat \<Rightarrow> string list \<Rightarrow> string list \<Rightarrow> worker_args" where
  "node_worker_args g img n chunks grounded_names =
     \<lparr>worker_id = 0, node_name = strip (name (nodes g ! n)),
      prompt_context = build_prompt_context g chunks grounded_names,
      dep_chunks = chunks, base_imports = BASE_IMPORTS, image_path = img,
      original_question = name (nodes g ! root g),
      is_root_node = (normalize_node_name (strip (name (nodes g ! n)))
                        = normalize_node_name (name (nodes g ! root g)))\<rparr>"

text \<open>
  The body of the loop over the build order for a node that needs synthesis and has all
  its dependencies: the pool is launched; on success the code is appended and cached and
  the loop goes on, otherwise the failure marker is appended and the run stops. The
  Boolean of the result says whether the run stops.
\<close>
definition synthesize_node ::
    "GoTSynthesizer \<Rightarrow> ConceptualGraph \<Rightarrow> string option \<Rightarrow> nat \<Rightarrow> string list \<Rightarrow> string list
      \<Rightarrow> synth_state \<Rightarrow> bool \<times> synth_state" where
  "synthesize_node S g img n chunks grounded_names st =
     (let node_name_clean = strip (name (nodes g ! n));
          (success_code, worker_calls) =
            run_worker_pool S (node_worker_args g img n chunks grounded_names);
          st1 = st\<lparr>pools := pools st @ [(node_name_clean, worker_calls)]\<rparr>
      in if truthy_result success_code
         then (False,
               st1\<lparr>final_code_pieces := final_code_pieces st1 @
                       [separator_line @ [CHR 0x0A] @ ''-- Node: '' @ node_name_clean @
                        [CHR 0x0A] @ separator_line @ [CHR 0x0A] @ the success_code],
                    synthesized_cache :=
                      AList.update (normalize_node_name node_name_clean) (the success_code)
                        (synthesized_cache st1),
                    cache_writes := cache_writes st1 @ [normalize_node_name node_name_clean]\<rparr>)
         else (True,
               st1\<lparr>final_code_pieces := final_code_pieces st1 @
                       [''-- FATAL: '' @ node_name_clean @ '' synthesis failed.'']\<rparr>))"

text \<open>
  The loop of \<^verbatim>\<open>run\<close> over the build order. \<open>None\<close> stands for an exception that
  leaves \<^verbatim>\<open>run\<close>.
\<close>
fun synthesize_nodes ::
    "GoTSynthesizer \<Rightarrow> ConceptualGraph \<Rightarrow> string option \<Rightarrow> nat list \<Rightarrow> synth_state
      \<Rightarrow> (bool \<times> synth_state) option" where
  "synthesize_nodes S g img [] st = Some (False, st)"
| "synthesize_nodes S g img (n # build_order) st =
     (case status (nodes g ! n) of
        GROUNDED \<Rightarrow>
          (if grounded_definition (nodes g ! n) = PyStr ''VerifiedKB''
           then (case recursively_paste_from_kb (recursion_limit S) S (name_key (name (nodes g ! n))) st of
                   None \<Rightarrow> None
                 | Some st' \<Rightarrow> synthesize_nodes S g img build_order st')
           else synthesize_nodes S g img build_order
                  (st\<lparr>grounded_set :=
                        insert (normalize_node_name (strip (name (nodes g ! n)))) (grounded_set st)\<rparr>))
      | TO_SYNTHESIZE \<Rightarrow>
          (case collect_transitive_synthesized_code S g n (synthesized_cache st) (grounded_set st) of
             None \<Rightarrow> None
           | Some (chunks, missing) \<Rightarrow>
               if missing \<noteq> [] then synthesize_nodes S g img build_order st
               else
                 (case collect_transitive_grounded g n (synthesized_cache st) (grounded_set st) of
                    None \<Rightarrow> None
                  | Some grounded_names \<Rightarrow>
                      (case synthesize_node S g img n chunks grounded_names st of
                         (True, st') \<Rightarrow> Some (True, st')
                       | (False, st') \<Rightarrow> synthesize_nodes S g img build_order st')))
      | TO_EXPAND \<Rightarrow> synthesize_nodes S g img build_order st)"

text \<open>\<^verbatim>\<open>_build_final_code_string\<close>: one piece, then all of them.\<close>
definition add_piece :: "string list \<times> string list \<Rightarrow> string \<Rightarrow> string list \<times> string list" where
  "add_piece acc piece =
     (if strip piece = [] then acc
      else
        (let lns = splitlines piece;
             import_lines = fst acc @ map (\<lambda>ln. collapse_ws (strip ln)) (filter is_import_line lns);
             others = filter (\<lambda>ln. \<not> is_import_line ln) lns;
             block = strip (join [CHR 0x0A] others)
         in (import_lines, if block \<noteq> [] then snd acc @ [block] else snd acc)))"

definition build_final_code_string :: "string list \<Rightarrow> string" where
  "build_final_code_string pieces =
     (let (import_lines, code_blocks) = foldl add_piece (BASE_IMPORTS, []) pieces
      in join [CHR 0x0A] (dedup import_lines) @ [CHR 0x0A, CHR 0x0A] @
         (if code_blocks \<noteq> [] then join [CHR 0x0A, CHR 0x0A] code_blocks else []))"

definition initial_synth_state :: synth_state where
  "initial_synth_state =
     \<lparr>final_code_pieces = [join [CHR 0x0A] BASE_IMPORTS], synthesized_cache = [],
      grounded_set = {}, cache_writes = [], pools = []\<rparr>"

text \<open>
  \<^verbatim>\<open>GoTSynthesizer.run\<close>: the final code and the final state, whose
  \<open>synthesized_cache\<close> is the second component of what the program returns.
\<close>
definition GoTSynthesizer_run ::
    "GoTSynthesizer \<Rightarrow> ConceptualGraph \<Rightarrow> string option \<Rightarrow> (string \<times> synth_state) option" where
  "GoTSynthesizer_run S g img =
     (case get_build_order g of
        None \<Rightarrow>
          Some (''import Mathlib'' @ [CHR 0x0A, CHR 0x0A] @ ''-- Error: Failed.'',
                initial_synth_state\<lparr>final_code_pieces := []\<rparr>)
      | Some build_order \<Rightarrow>
          (case synthesize_nodes S g img build_order initial_synth_state of
             None \<Rightarrow> None
           | Some (halted, st) \<Rightarrow> Some (build_final_code_string (final_code_pieces st), st)))"

section \<open>Stage three: alignment (stage3\_alignment.py)\<close>

record SemanticAlignmentModule =
  aligner_llm :: LLMModules
  aligner_json_loads :: "string \<Rightarrow> json option"

text \<open>The loop over the build order that back-translates the nodes found in the cache.\<close>
fun back_translate_nodes ::
    "SemanticAlignmentModule \<Rightarrow> ConceptualGraph \<Rightarrow> (string \<times> string) list \<Rightarrow> nat list
      \<Rightarrow> (string \<times> string) list \<Rightarrow> (string \<times> string) list" where
  "back_translate_nodes A g cache [] segments = segments"
| "back_translate_nodes A g cache (n # build_order) segments =
     (let node_key = normalize_node_name (name (nodes g ! n))
      in (case map_of cache node_key of
            None \<Rightarrow> back_translate_nodes A g cache build_order segments
          | Some code_chunk \<Rightarrow>
              (let dep_nl_context =
                     map (\<lambda>dep. ''- '' @ name (nodes g ! dep) @ '': '' @
                                 dict_get segments (normalize_node_name (name (nodes g ! dep))) [])
                       (filter (\<lambda>dep. normalize_node_name (name (nodes g ! dep))
                                          \<in> fst ` set segments)
                          (dependencies (nodes g ! n)));
                   nl_description = run_back_translation (aligner_llm A) (name (nodes g ! n))
                                      code_chunk (join [CHR 0x0A] dep_nl_context)
               in back_translate_nodes A g cache build_order
                    (AList.update node_key nl_description segments))))"

text \<open>
  The judgment that \<^verbatim>\<open>SemanticAlignmentModule.run\<close> obtains, after \<^verbatim>\<open>json.loads\<close>.
\<close>
definition alignment_judgment ::
    "SemanticAlignmentModule \<Rightarrow> string \<Rightarrow> (string \<times> string) list \<Rightarrow> string option \<Rightarrow> json option" where
  "alignment_judgment A original_statement segments img =
     aligner_json_loads A
       (run_semantic_check (aligner_llm A) original_statement
          (run_merge_back_translations (aligner_llm A) segments) img)"

text \<open>
  \<^verbatim>\<open>SemanticAlignmentModule.run\<close>: the pair that it returns and the knowledge base file
  that it leaves. \<open>None\<close> stands for an exception that leaves \<^verbatim>\<open>run\<close>: the build order
  fails, or the judgment is JSON but no dictionary (\<^verbatim>\<open>AttributeError\<close>).
\<close>
definition SemanticAlignmentModule_run ::
    "SemanticAlignmentModule \<Rightarrow> string \<Rightarrow> (string \<times> string) list \<Rightarrow> ConceptualGraph
      \<Rightarrow> string option \<Rightarrow> kb_file \<Rightarrow> bool \<Rightarrow> ((bool \<times> json) \<times> kb_file) option" where
  "SemanticAlignmentModule_run A original_statement cache g img f writable =
     (case get_build_order g of
        None \<Rightarrow> None
      | Some build_order \<Rightarrow>
          (let segments = back_translate_nodes A g cache build_order []
           in if segments = []
              then Some ((False, JObj [(''consistency_level'', JStr ''level_3''),
                                       (''error'', JStr ''No segments to merge'')]), f)
              else
                (case alignment_judgment A original_statement segments img of
                   None \<Rightarrow>
                     Some ((False, JObj [(''consistency_level'', JStr ''level_3''),
                                         (''discrepancies'', JArr [JStr ''invalid JSON'']),
                                         (''recommendations'', JArr [])]), f)
                 | Some (JObj report) \<Rightarrow>
                     (let consistency_level = dict_get report ''consistency_level'' (JStr ''level_3'');
                          is_consistent = (consistency_level = JStr ''level_1'' \<or>
                                           consistency_level = JStr ''level_2'')
                      in if is_consistent
                         then Some ((True, JObj report), save_verified_nodes cache g f writable)
                         else Some ((False, JObj report), f))
                 | Some _ \<Rightarrow> None)))"

section \<open>One problem (main.py)\<close>

record result_summary =
  question :: string
  summary_status :: string
  compilation_passed :: bool
  semantic_passed :: bool
  error :: "string option"
  consistency_level :: json
  generated_code :: string

text \<open>
  \<^verbatim>\<open>process_single_problem\<close>: the record of the problem and the knowledge base file
  afterwards. \<open>gen_image_path\<close> and \<open>check_image_path\<close> are the paths that the function
  derives from the entry and the configuration. The result is \<open>None\<close> only when the
  decomposition does not end within \<open>fuel\<close> rounds; an exception in a stage gives the
  status \<open>error\<close>.
\<close>
definition process_single_problem ::
    "nat \<Rightarrow> 'c GoTPlanner \<Rightarrow> GoTSynthesizer \<Rightarrow> SemanticAlignmentModule \<Rightarrow> string
      \<Rightarrow> string option \<Rightarrow> string option \<Rightarrow> kb_file \<Rightarrow> bool
      \<Rightarrow> (result_summary \<times> kb_file) option" where
  "process_single_problem fuel planner synthesizer aligner q gen_image_path check_image_path
     f writable =
     (let result_summary =
            \<lparr>question = q, summary_status = ''failed'', compilation_passed = False,
             semantic_passed = False, error = None, consistency_level = JStr ''N/A'',
             generated_code = []\<rparr>
      in (case GoTPlanner_run fuel planner q gen_image_path of
            None \<Rightarrow> None
          | Some g \<Rightarrow>
              (case GoTSynthesizer_run synthesizer g gen_image_path of
                 None \<Rightarrow>
                   Some (result_summary\<lparr>summary_status := ''error'', error := Some ''exception''\<rparr>, f)
               | Some (final_lean_code, st) \<Rightarrow>
                   if is_substring ''-- FATAL:'' final_lean_code
                   then Some (result_summary\<lparr>generated_code := final_lean_code,
                                             error := Some ''Stage 2 Synthesis Failed'',
                                             compilation_passed := False\<rparr>, f)
                   else
                     (case SemanticAlignmentModule_run aligner q (synthesized_cache st) g
                             check_image_path f writable of
                        None \<Rightarrow>
                          Some (result_summary\<lparr>generated_code := final_lean_code,
                                                compilation_passed := True,
                                                summary_status := ''error'',
                                                error := Some ''exception''\<rparr>, f)
                      | Some ((is_consistent, report), f') \<Rightarrow>
                          Some (result_summary
                                  \<lparr>generated_code := final_lean_code,
                                   compilation_passed := True,
                                   consistency_level :=
                                     (case report of
                                        JObj r \<Rightarrow> dict_get r ''consistency_level'' (JStr ''level_3'')
                                      | _ \<Rightarrow> JStr ''level_3''),
                                   summary_status :=
                                     (if is_consistent then ''success'' else ''inconsistent''),
                                   semantic_passed := is_consistent\<rparr>, f')))))"

subsection \<open>Example problems\<close>

definition example_aligner :: "string \<Rightarrow> SemanticAlignmentModule" where
  "example_aligner verdict =
     \<lparr>aligner_llm = example_llm verdict, aligner_json_loads = example_json_loads\<rparr>"

text \<open>The problem \<open>s\<close> with the two siblings, and a compiler that rejects everything.\<close>
definition failing_problem :: "(result_summary \<times> kb_file) option" where
  "failing_problem =
     process_single_problem 5
       (table_planner [(''s'', [''a'', ''b'']), (''a'', [''c'']), (''b'', [''C ''])])
       (example_synthesizer ''level_1'' False) (example_aligner ''level_1'') ''s'' None None
       NoFile True"

text \<open>The problem \<open>s\<close> whose decomposition is cyclic, and a compiler that accepts everything.\<close>
definition cyclic_problem :: "(result_summary \<times> kb_file) option" where
  "cyclic_problem =
     process_single_problem 2 (table_planner [(''s'', [''a'']), (''a'', [''s''])])
       (example_synthesizer ''level_1'' True) (example_aligner ''level_1'') ''s'' None None
       NoFile True"

subsection \<open>Example graphs with names that differ in white space only\<close>

text \<open>As \<open>table_planner\<close>, with a list of names that the grounding finds.\<close>
definition grounding_planner :: "(string \<times> string list) list \<Rightarrow> string list \<Rightarrow> unit GoTPlanner" where
  "grounding_planner tbl found =
     \<lparr>run_expansion_module = (\<lambda>nm img. case map_of tbl nm of None \<Rightarrow> [] | Some ds \<Rightarrow> ds),
      lean_search = (\<lambda>nm. ()),
      run_grounding_reasoner =
        (\<lambda>nm cands img. if nm \<in> set found
                         then \<lparr>is_found = True, definitions = [''Mathlib.'' @ nm]\<rparr>
                         else \<lparr>is_found = False, definitions = []\<rparr>),
      planner_verified_kb = {}\<rparr>"

text \<open>The statement \<open>s\<close> needs \<open>a b\<close> and \<open>a  b\<close> (two blanks), both to be synthesized.\<close>
definition collapse_graph :: ConceptualGraph where
  "collapse_graph =
     the (GoTPlanner_run 3 (table_planner [(''s'', [''a b'', ''a  b''])]) ''s'' None)"

text \<open>
  The statement \<open>s\<close> needs \<open>a b\<close>, which is grounded, and \<open>a  b\<close>, which is not and is
  said to need \<open>s\<close> again.
\<close>
definition collision_graph :: ConceptualGraph where
  "collision_graph =
     the (GoTPlanner_run 3
            (grounding_planner [(''s'', [''a b'', ''a  b'']), (''a  b'', [''s''])] [''a b''])
            ''s'' None)"

text \<open>
  The statement is \<open>a  b\<close> (two blanks) and its expansion names the concept \<open>a b\<close>.
\<close>
definition leak_graph :: ConceptualGraph where
  "leak_graph = the (GoTPlanner_run 2 (table_planner [(''a  b'', [''a b''])]) ''a  b'' None)"

text \<open>The statement \<open>s\<close> that expands to nothing: the graph is its root.\<close>
definition single_graph :: ConceptualGraph where
  "single_graph = the (GoTPlanner_run 0 (table_planner []) ''s'' None)"

section \<open>Notions used in the statements\<close>

text \<open>
  A judgment is acceptable when it is a dictionary whose consistency level is
  \<open>level_1\<close> or \<open>level_2\<close>.
\<close>
definition judged_acceptable :: "json option \<Rightarrow> bool" where
  "judged_acceptable j =
     (case j of
        Some (JObj report) \<Rightarrow>
          map_of report ''consistency_level'' = Some (JStr ''level_1'') \<or>
          map_of report ''consistency_level'' = Some (JStr ''level_2'')
      | _ \<Rightarrow> False)"

text \<open>\<open>adjacent a b s\<close>: somewhere in \<open>s\<close> the character \<open>a\<close> is followed by \<open>b\<close>.\<close>
fun adjacent :: "char \<Rightarrow> char \<Rightarrow> string \<Rightarrow> bool" where
  "adjacent a b (x # y # s) = ((x = a \<and> y = b) \<or> adjacent a b (y # s))"
| "adjacent a b s = False"

section \<open>Facts about the string functions\<close>

lemma isspace_lower_char [simp]: "isspace (lower_char c) = isspace c"
  by (simp add: lower_char_def isspace_def)

lemma lower_char_idem [simp]: "lower_char (lower_char c) = lower_char c"
  by (simp add: lower_char_def)

lemma lower_idem [simp]: "lower (lower s) = lower s"
  by (simp add: lower_def)

lemma lower_strip: "lower (strip s) = strip (lower s)"
  by (simp add: strip_def lower_def dropWhile_map comp_def rev_map)

lemma lstrip_rstrip:
  "dropWhile P (rev (dropWhile P (rev t))) = rev (dropWhile P (rev (dropWhile P t)))"
proof (induction t)
  case Nil
  show ?case by simp
next
  case (Cons c t)
  show ?case
  proof (cases "P c")
    case True
    show ?thesis
    proof (cases "\<forall>x\<in>set t. P x")
      case True
      with \<open>P c\<close> show ?thesis
        by (simp add: dropWhile_append dropWhile_eq_Nil_conv[THEN iffD2])
    next
      case False
      with \<open>P c\<close> Cons show ?thesis by (auto simp: dropWhile_append)
    qed
  next
    case False
    then show ?thesis by (auto simp: dropWhile_append)
  qed
qed

lemma strip_idem [simp]: "strip (strip s) = strip s"
proof -
  have "dropWhile isspace (rev (dropWhile isspace (rev (dropWhile isspace s))))
       = rev (dropWhile isspace (rev (dropWhile isspace (dropWhile isspace s))))"
    by (rule lstrip_rstrip)
  then show ?thesis by (simp add: strip_def)
qed

lemma name_key_strip [simp]: "name_key (strip s) = name_key s"
  by (simp add: name_key_def lower_strip)

lemma name_key_idem [simp]: "name_key (name_key s) = name_key s"
  by (simp add: name_key_def lower_strip)

section \<open>Facts about list positions\<close>

lemma precedes_iff:
  "precedes a b xs \<longleftrightarrow> (\<exists>ys zs. xs = ys @ a # zs \<and> a \<notin> set ys \<and> b \<in> set zs)"
proof (induction xs)
  case Nil
  show ?case by (simp add: precedes_def)
next
  case (Cons x xs)
  show ?case
  proof (cases "x = a")
    case True
    have "(\<exists>ys zs. x # xs = ys @ a # zs \<and> a \<notin> set ys \<and> b \<in> set zs) \<longleftrightarrow> b \<in> set xs"
    proof
      assume "\<exists>ys zs. x # xs = ys @ a # zs \<and> a \<notin> set ys \<and> b \<in> set zs"
      then obtain ys zs where e: "x # xs = ys @ a # zs" "a \<notin> set ys" "b \<in> set zs" by blast
      with True have "ys = []" by (cases ys) auto
      with e show "b \<in> set xs" by simp
    next
      assume "b \<in> set xs"
      with True have "x # xs = [] @ a # xs \<and> a \<notin> set [] \<and> b \<in> set xs" by simp
      then show "\<exists>ys zs. x # xs = ys @ a # zs \<and> a \<notin> set ys \<and> b \<in> set zs" by blast
    qed
    with True show ?thesis by (simp add: precedes_def)
  next
    case False
    have "(\<exists>ys zs. x # xs = ys @ a # zs \<and> a \<notin> set ys \<and> b \<in> set zs)
          \<longleftrightarrow> (\<exists>ys zs. xs = ys @ a # zs \<and> a \<notin> set ys \<and> b \<in> set zs)"
    proof
      assume "\<exists>ys zs. x # xs = ys @ a # zs \<and> a \<notin> set ys \<and> b \<in> set zs"
      then obtain ys zs where e: "x # xs = ys @ a # zs" "a \<notin> set ys" "b \<in> set zs" by blast
      with False obtain ys' where "ys = x # ys'" by (cases ys) auto
      with e have "xs = ys' @ a # zs \<and> a \<notin> set ys' \<and> b \<in> set zs" by simp
      then show "\<exists>ys zs. xs = ys @ a # zs \<and> a \<notin> set ys \<and> b \<in> set zs" by blast
    next
      assume "\<exists>ys zs. xs = ys @ a # zs \<and> a \<notin> set ys \<and> b \<in> set zs"
      then obtain ys zs where e: "xs = ys @ a # zs" "a \<notin> set ys" "b \<in> set zs" by blast
      with False have "x # xs = (x # ys) @ a # zs \<and> a \<notin> set (x # ys) \<and> b \<in> set zs" by simp
      then show "\<exists>ys zs. x # xs = ys @ a # zs \<and> a \<notin> set ys \<and> b \<in> set zs" by blast
    qed
    with False Cons show ?thesis by (simp add: precedes_def)
  qed
qed



lemma precedes_distinct:
  assumes "distinct xs" "precedes a b xs"
  shows "a \<noteq> b \<and> a \<in> set xs \<and> b \<in> set xs \<and> \<not> precedes b a xs"
proof -
  from assms(2) obtain ys zs where e: "xs = ys @ a # zs" "a \<notin> set ys" "b \<in> set zs"
    unfolding precedes_iff by blast
  with assms(1) have ab: "a \<noteq> b" "b \<notin> set ys" "a \<notin> set zs" by auto
  have "\<not> precedes b a xs"
  proof
    assume "precedes b a xs"
    then obtain ys' zs' where e': "xs = ys' @ b # zs'" "a \<in> set zs'"
      unfolding precedes_iff by blast
    from e(1) e'(1) have "ys @ a # zs = ys' @ b # zs'" by simp
    then obtain us where "(ys = ys' @ us \<and> us @ a # zs = b # zs') \<or> (ys @ us = ys' \<and> a # zs = us @ b # zs')"
      unfolding append_eq_append_conv2 by blast
    then show False
    proof
      assume c: "ys = ys' @ us \<and> us @ a # zs = b # zs'"
      show False
      proof (cases us)
        case Nil with c ab show False by simp
      next
        case (Cons u us') with c ab show False by simp
      qed
    next
      assume c: "ys @ us = ys' \<and> a # zs = us @ b # zs'"
      show False
      proof (cases us)
        case Nil with c ab show False by simp
      next
        case (Cons u us')
        with c have "zs = us' @ b # zs'" by simp
        with e'(2) ab show False by simp
      qed
    qed
  qed
  with e ab show ?thesis by auto
qed

section \<open>The build order\<close>




lemma depends_onI:
  "n < length (nodes g) \<Longrightarrow> d \<in> set (dependencies (nodes g ! n)) \<Longrightarrow> (n, d) \<in> depends_on g"
  by (simp add: depends_on_def)






section \<open>Invariants of the decomposition\<close>

lemma nth_update_if: "j < length ns \<Longrightarrow> ns[n := x] ! j = (if j = n then x else ns ! j)"
  by (cases "j = n") auto

lemma planner_inv_init: "planner_inv (ConceptualGraph_init s)"
  by (simp add: planner_inv_def graph_closed_def name_index_ok_def ConceptualGraph_init_def
      ConceptNode_init_def Let_def)

lemma graph_closed_update:
  assumes "graph_closed g" "length ns = length (nodes g)"
    "\<forall>i<length ns. set (dependencies (ns ! i)) \<subseteq> {..<length ns}"
  shows "graph_closed (g\<lparr>nodes := ns\<rparr>)"
proof -
  have "\<forall>nd\<in>set ns. \<forall>d\<in>set (dependencies nd). d < length ns"
  proof (intro ballI)
    fix nd d assume "nd \<in> set ns" and d: "d \<in> set (dependencies nd)"
    then obtain i where "i < length ns" "ns ! i = nd" by (auto simp: in_set_conv_nth)
    with assms(3) d show "d < length ns" by auto
  qed
  with assms(1,2) show ?thesis by (simp add: graph_closed_def list_all_iff)
qed

lemma graph_closed_nth:
  "graph_closed g \<Longrightarrow> i < length (nodes g) \<Longrightarrow> set (dependencies (nodes g ! i)) \<subseteq> {..<length (nodes g)}"
  by (auto simp: graph_closed_def list_all_iff)

lemma planner_inv_set_status: "planner_inv g \<Longrightarrow> planner_inv (set_status g n st)"
proof -
  assume a: "planner_inv g"
  have "graph_closed (set_status g n st)"
    unfolding set_status_def
    by (rule graph_closed_update) (use a in \<open>auto simp: planner_inv_def nth_update_if dest: graph_closed_nth\<close>)
  moreover have "name_index_ok (set_status g n st)"
    using a by (auto simp: planner_inv_def name_index_ok_def set_status_def nth_update_if)
  ultimately show ?thesis by (simp add: planner_inv_def)
qed

lemma planner_inv_set_grounded: "planner_inv g \<Longrightarrow> planner_inv (set_grounded g n ds)"
proof -
  assume a: "planner_inv g"
  have "graph_closed (set_grounded g n ds)"
    unfolding set_grounded_def
    by (rule graph_closed_update) (use a in \<open>auto simp: planner_inv_def nth_update_if dest: graph_closed_nth\<close>)
  moreover have "name_index_ok (set_grounded g n ds)"
    using a by (auto simp: planner_inv_def name_index_ok_def set_grounded_def nth_update_if)
  ultimately show ?thesis by (simp add: planner_inv_def)
qed

lemma planner_inv_append_dependency:
  "planner_inv g \<Longrightarrow> e < length (nodes g) \<Longrightarrow> planner_inv (append_dependency g n e)"
proof -
  assume a: "planner_inv g" and e: "e < length (nodes g)"
  have "graph_closed (append_dependency g n e)"
    unfolding append_dependency_def
    by (rule graph_closed_update) (use a e in \<open>auto simp: planner_inv_def nth_update_if dest: graph_closed_nth\<close>)
  moreover have "name_index_ok (append_dependency g n e)"
    using a by (auto simp: planner_inv_def name_index_ok_def append_dependency_def nth_update_if)
  ultimately show ?thesis by (simp add: planner_inv_def)
qed

lemma find_node_in_range:
  "planner_inv g \<Longrightarrow> find_node_by_name g k = Some e \<Longrightarrow> e < length (nodes g)"
  by (auto simp: planner_inv_def name_index_ok_def find_node_by_name_def)

lemma planner_inv_add_node:
  assumes a: "planner_inv g" and f: "find_node_by_name g (name_key nm) = None"
  shows "planner_inv (fst (add_node g nm par))"
proof -
  let ?N = "length (nodes g)"
  let ?ns = "(nodes g)[par := (nodes g ! par)\<lparr>dependencies := dependencies (nodes g ! par) @ [?N]\<rparr>]"
  let ?new = "ConceptNode_init nm (Some par)"
  have g': "fst (add_node g nm par) =
      g\<lparr>nodes := ?ns @ [?new], nodes_by_name := (nodes_by_name g)(name_key (name ?new) \<mapsto> ?N)\<rparr>"
    by (simp add: add_node_def Let_def)
  have key: "name_key (name ?new) = name_key nm" by (simp add: ConceptNode_init_def)
  from f have none: "nodes_by_name g (name_key nm) = None" by (simp add: find_node_by_name_def)
  have closed: "graph_closed g" and idx: "name_index_ok g" using a by (simp_all add: planner_inv_def)
  have rootlt: "root g < ?N" using closed by (simp add: graph_closed_def)
  have deps: "\<forall>i<Suc ?N. set (dependencies ((?ns @ [?new]) ! i)) \<subseteq> {..<Suc ?N}"
  proof (intro allI impI)
    fix i assume i: "i < Suc ?N"
    show "set (dependencies ((?ns @ [?new]) ! i)) \<subseteq> {..<Suc ?N}"
    proof (cases "i = ?N")
      case True
      then show ?thesis by (simp add: nth_append ConceptNode_init_def)
    next
      case False
      with i have il: "i < ?N" by simp
      from graph_closed_nth[OF closed il] have "set (dependencies (nodes g ! i)) \<subseteq> {..<Suc ?N}" by auto
      with il show ?thesis by (auto simp: nth_append nth_update_if)
    qed
  qed
  have "\<forall>nd\<in>set (?ns @ [?new]). \<forall>d\<in>set (dependencies nd). d < Suc ?N"
  proof (intro ballI)
    fix nd d assume "nd \<in> set (?ns @ [?new])" and d: "d \<in> set (dependencies nd)"
    then obtain i where "i < length (?ns @ [?new])" "(?ns @ [?new]) ! i = nd"
      unfolding in_set_conv_nth by blast
    with deps d show "d < Suc ?N" by auto
  qed
  with rootlt have c': "graph_closed (fst (add_node g nm par))"
    unfolding g' graph_closed_def by (simp add: list_all_iff)
  have names: "\<forall>i<?N. name ((?ns @ [?new]) ! i) = name (nodes g ! i)"
    by (auto simp: nth_append nth_update_if)
  have i': "name_index_ok (fst (add_node g nm par))"
    unfolding g' name_index_ok_def
  proof (intro conjI allI impI)
    fix i assume "i < length (nodes (g\<lparr>nodes := ?ns @ [?new], nodes_by_name := (nodes_by_name g)(name_key (name ?new) \<mapsto> ?N)\<rparr>))"
    then have i: "i < Suc ?N" by simp
    show "nodes_by_name (g\<lparr>nodes := ?ns @ [?new], nodes_by_name := (nodes_by_name g)(name_key (name ?new) \<mapsto> ?N)\<rparr>)
            (name_key (name (nodes (g\<lparr>nodes := ?ns @ [?new], nodes_by_name := (nodes_by_name g)(name_key (name ?new) \<mapsto> ?N)\<rparr>) ! i))) = Some i"
    proof (cases "i = ?N")
      case True
      then show ?thesis by (simp add: nth_append)
    next
      case False
      with i have il: "i < ?N" by simp
      with idx have s: "nodes_by_name g (name_key (name (nodes g ! i))) = Some i"
        by (simp add: name_index_ok_def)
      with none have "name_key (name (nodes g ! i)) \<noteq> name_key nm" by auto
      with s il names key show ?thesis by simp
    qed
  next
    fix k e
    assume "nodes_by_name (g\<lparr>nodes := ?ns @ [?new], nodes_by_name := (nodes_by_name g)(name_key (name ?new) \<mapsto> ?N)\<rparr>) k = Some e"
    then have "e = ?N \<or> nodes_by_name g k = Some e" by (auto split: if_splits)
    with idx have "e < Suc ?N" by (auto simp: name_index_ok_def less_Suc_eq)
    then show "e < length (nodes (g\<lparr>nodes := ?ns @ [?new], nodes_by_name := (nodes_by_name g)(name_key (name ?new) \<mapsto> ?N)\<rparr>))"
      by simp
  qed
  from c' i' show ?thesis by (simp add: planner_inv_def)
qed

lemma planner_inv_enqueue_new:
  "planner_inv (graph st) \<Longrightarrow> find_node_by_name (graph st) (name_key nm) = None \<Longrightarrow>
   planner_inv (graph (enqueue_new st nm par))"
  using planner_inv_add_node[of "graph st" nm par]
  by (simp add: enqueue_new_def split_beta Let_def)

lemma planner_inv_link_root:
  "planner_inv (graph st) \<Longrightarrow> planner_inv (graph (link_root_dependencies st names))"
proof (induction st names rule: link_root_dependencies.induct)
  case (1 st)
  then show ?case by simp
next
  case (2 st nm names)
  show ?case
  proof (cases "name_key nm = []")
    case True
    with 2 show ?thesis by simp
  next
    case False
    show ?thesis
    proof (cases "find_node_by_name (graph st) (name_key nm)")
      case None
      with False 2 show ?thesis
        by (simp add: planner_inv_enqueue_new del: name_key_idem)
    next
      case (Some e)
      with "2.prems" have "e < length (nodes (graph st))" by (rule find_node_in_range)
      with "2.prems" have "planner_inv (append_dependency (graph st) (root (graph st)) e)"
        by (simp add: planner_inv_append_dependency)
      with False Some 2 show ?thesis by simp
    qed
  qed
qed

lemma planner_inv_link:
  "planner_inv (graph st) \<Longrightarrow> planner_inv (graph (link_dependencies st cur names))"
proof (induction st cur names rule: link_dependencies.induct)
  case (1 st cur)
  then show ?case by simp
next
  case (2 st cur nm names)
  show ?case
  proof (cases "name_key nm = []")
    case True
    with 2 show ?thesis by simp
  next
    case False
    show ?thesis
    proof (cases "find_node_by_name (graph st) (name_key nm)")
      case None
      with False 2 show ?thesis
        by (simp add: planner_inv_enqueue_new del: name_key_idem)
    next
      case (Some e)
      with "2.prems" have "e < length (nodes (graph st))" by (rule find_node_in_range)
      with "2.prems" have "planner_inv (append_dependency (graph st) cur e)"
        by (simp add: planner_inv_append_dependency)
      with False Some 2 show ?thesis by simp
    qed
  qed
qed

lemma planner_inv_process_node:
  "planner_inv (graph st) \<Longrightarrow> planner_inv (graph (process_node p img st cur))"
  by (simp add: process_node_def Let_def planner_inv_set_grounded planner_inv_set_status planner_inv_link)

lemma planner_inv_loop:
  "planner_loop fuel p img st = Some st' \<Longrightarrow> planner_inv (graph st) \<Longrightarrow> planner_inv (graph st')"
proof (induction fuel arbitrary: st)
  case 0
  then show ?case by (auto split: list.splits)
next
  case (Suc fuel)
  show ?case
  proof (cases "queue st")
    case Nil
    with Suc.prems show ?thesis by simp
  next
    case (Cons cur rest)
    with Suc.prems(1) have "planner_loop fuel p img (process_node p img (st\<lparr>queue := rest\<rparr>) cur) = Some st'"
      by simp
    moreover have "planner_inv (graph (process_node p img (st\<lparr>queue := rest\<rparr>) cur))"
      using Suc.prems(2) by (simp add: planner_inv_process_node)
    ultimately show ?thesis by (rule Suc.IH)
  qed
qed

lemma planner_inv_run:
  "GoTPlanner_run fuel p stmt img = Some g \<Longrightarrow> planner_inv g"
proof -
  assume r: "GoTPlanner_run fuel p stmt img = Some g"
  let ?g1 = "set_status (ConceptualGraph_init stmt) (root (ConceptualGraph_init stmt)) TO_SYNTHESIZE"
  let ?st = "link_root_dependencies \<lparr>graph = ?g1, queue = [], queue_log = {name_key (name (nodes ?g1 ! root ?g1))}\<rparr>
               (run_expansion_module p (name (nodes ?g1 ! root ?g1)) img)"
  from r obtain st' where l: "planner_loop fuel p img ?st = Some st'" and g: "g = graph st'"
    by (auto simp: GoTPlanner_run_def Let_def)
  have "planner_inv ?g1" by (simp add: planner_inv_set_status planner_inv_init)
  then have "planner_inv (graph ?st)" by (simp add: planner_inv_link_root)
  with l have "planner_inv (graph st')" by (rule planner_inv_loop)
  with g show ?thesis by simp
qed

lemma name_index_ok_distinct:
  assumes "name_index_ok g"
  shows "distinct (map (\<lambda>nd. name_key (name nd)) (nodes g))"
proof -
  have "\<forall>i<length (nodes g). \<forall>j<length (nodes g). i \<noteq> j \<longrightarrow>
          name_key (name (nodes g ! i)) \<noteq> name_key (name (nodes g ! j))"
    using assms by (auto simp: name_index_ok_def) (metis option.inject)
  then show ?thesis by (simp add: distinct_conv_nth)
qed

section \<open>Build order and deduplication: the claims\<close>



text \<open>The two example decompositions, evaluated.\<close>
lemma sibling_nodes:
  "GoTPlanner_run 5 (table_planner [(''s'', [''a'', ''b'']), (''a'', [''c'']), (''b'', [''C ''])]) ''s'' None \<noteq> None \<and>
   nodes sibling_graph =
     [\<lparr>name = ''s'', status = TO_SYNTHESIZE, dependencies = [1, 2], parent = None,
       grounded_definition = PyList []\<rparr>,
      \<lparr>name = ''a'', status = TO_SYNTHESIZE, dependencies = [3], parent = Some 0,
       grounded_definition = PyList []\<rparr>,
      \<lparr>name = ''b'', status = TO_SYNTHESIZE, dependencies = [3], parent = Some 0,
       grounded_definition = PyList []\<rparr>,
      \<lparr>name = ''c'', status = TO_SYNTHESIZE, dependencies = [], parent = Some 1,
       grounded_definition = PyList []\<rparr>] \<and> root sibling_graph = 0"
  unfolding sibling_graph_def by code_simp

lemma sibling_order: "get_build_order sibling_graph = Some [3, 1, 2, 0]"
  by (simp add: get_build_order_def sibling_nodes)




text \<open>
  C4. In the graph that a decomposition returns, no two nodes have the same normalized
  name (the name lower-cased and trimmed): the list of the nodes' keys has no repetition.
\<close>
theorem decomposition_names_distinct:
  assumes "GoTPlanner_run fuel p stmt img = Some g"
  shows "distinct (map (\<lambda>nd. name_key (name nd)) (nodes g))"
proof -
  from assms have "planner_inv g" by (rule planner_inv_run)
  then have "name_index_ok g" by (simp add: planner_inv_def)
  then show ?thesis by (rule name_index_ok_distinct)
qed

text \<open>
  The theorem of C4 where the siblings \<open>a\<close> and \<open>b\<close> name \<open>c\<close> and \<open>C \<close>: the graph has
  four nodes, and node 3 is the one dependency of both.
\<close>
theorem decomposition_names_distinct_witness:
  "GoTPlanner_run 5 (table_planner [(''s'', [''a'', ''b'']), (''a'', [''c'']), (''b'', [''C ''])])
      ''s'' None = Some sibling_graph \<and>
   distinct (map (\<lambda>nd. name_key (name nd)) (nodes sibling_graph)) \<and>
   length (nodes sibling_graph) = 4 \<and>
   dependencies (nodes sibling_graph ! 1) = [3] \<and>
   dependencies (nodes sibling_graph ! 2) = [3]"
proof -
  have run: "GoTPlanner_run 5 (table_planner [(''s'', [''a'', ''b'']), (''a'', [''c'']), (''b'', [''C ''])])
      ''s'' None = Some sibling_graph"
    using sibling_nodes by (auto simp: sibling_graph_def)
  from decomposition_names_distinct[OF run] run show ?thesis
    by (simp add: sibling_nodes)
qed

text \<open>
  C2 (as amended). \<open>add_node\<close> creates a node in every case: it returns a fresh node
  carrying the trimmed name, the graph grows by that node, the name index sends the
  normalized name to the new node (replacing an entry that was there), and the new node
  is appended to the dependencies of the parent.
\<close>
theorem add_node_always_creates:
  "snd (add_node g nm par) = length (nodes g) \<and>
   length (nodes (fst (add_node g nm par))) = Suc (length (nodes g)) \<and>
   nodes (fst (add_node g nm par)) ! length (nodes g) = ConceptNode_init nm (Some par) \<and>
   nodes_by_name (fst (add_node g nm par)) (name_key nm) = Some (length (nodes g)) \<and>
   (par < length (nodes g) \<longrightarrow>
      dependencies (nodes (fst (add_node g nm par)) ! par)
        = dependencies (nodes g ! par) @ [length (nodes g)])"
  by (simp add: add_node_def Let_def nth_append ConceptNode_init_def)

text \<open>The theorem of C2 for a first child \<open>a\<close> of the root \<open>S\<close>.\<close>
theorem add_node_always_creates_witness:
  "(0::nat) < length (nodes (ConceptualGraph_init ''S'')) \<and>
   snd (add_node (ConceptualGraph_init ''S'') ''a'' 0) = 1 \<and>
   dependencies (nodes (fst (add_node (ConceptualGraph_init ''S'') ''a'' 0)) ! 0) = [1]"
proof -
  have l: "length (nodes (ConceptualGraph_init ''S'')) = 1"
    and d: "dependencies (nodes (ConceptualGraph_init ''S'') ! 0) = []"
    by (simp_all add: ConceptualGraph_init_def ConceptNode_init_def Let_def)
  from add_node_always_creates[of "ConceptualGraph_init ''S''" "''a''" 0] l d
  show ?thesis by simp
qed

text \<open>
  C2 as stated fails: in the graph of the root \<open>S\<close> the key \<open>s\<close> belongs to the root, yet
  \<open>add_node\<close> with the name \<open>s\<close> returns a second node and moves the index entry to it.
\<close>
theorem add_node_existing_name_counterexample:
  "find_node_by_name (ConceptualGraph_init ''S'') ''s'' = Some 0 \<and>
   snd (add_node (ConceptualGraph_init ''S'') ''s'' 0) \<noteq> 0 \<and>
   length (nodes (fst (add_node (ConceptualGraph_init ''S'') ''s'' 0))) = 2 \<and>
   nodes_by_name (fst (add_node (ConceptualGraph_init ''S'') ''s'' 0)) (name_key ''s'') = Some 1"
  by code_simp

section \<open>The knowledge base\<close>



















section \<open>The synthesis worker\<close>

text \<open>
  C6. A worker on the root node (with the original statement at hand) that is not
  stopped before its first attempt, whose first candidate is not blank and is judged
  \<open>level_3\<close> by the semantic pre-check, returns without a result after exactly three
  calls: the generation, the back-translation and the check. It makes no call to the
  compiler and no further attempt.
\<close>
theorem root_level3_fail_fast:
  assumes attempts: "0 < ATTEMPTS_PER_WORKER S"
    and running: "\<not> stop_event_is_set S (node_name a) (worker_id a) 0"
    and candidate: "run_synthesis_module (llm S (worker_id a)) (node_name a) (prompt_context a)
                      (image_path a) = code" "strip code \<noteq> []"
    and root: "is_root_node a" "original_question a \<noteq> []"
    and judged: "json_loads S (run_semantic_check (llm S (worker_id a)) (original_question a)
                   (run_back_translation (llm S (worker_id a)) (node_name a) code
                      ''(Context omitted for pre-check)'')
                   (image_path a)) = Some (JObj report)"
                "map_of report ''consistency_level'' = Some (JStr ''level_3'')"
  shows "synthesis_worker S a = (None, [Generate, BackTranslate, SemanticCheck])"
proof -
  from attempts obtain k where k: "ATTEMPTS_PER_WORKER S = Suc k"
    by (cases "ATTEMPTS_PER_WORKER S") auto
  have g: "semantic_gate S a code = Abort"
    using judged by (simp add: semantic_gate_def Let_def dict_get_def)
  show ?thesis
    unfolding synthesis_worker_def k
    using running candidate root g by (simp add: Let_def)
qed

text \<open>
  The theorem of C6 with a compiler that would accept anything and a judge that always
  answers \<open>level_3\<close>.
\<close>
theorem root_level3_fail_fast_witness:
  "0 < ATTEMPTS_PER_WORKER (example_synthesizer ''level_3'' True) \<and>
   comp_status (compile_code (example_synthesizer ''level_3'' True) ''anything'' 0) = ''success'' \<and>
   is_root_node example_root_worker \<and> original_question example_root_worker \<noteq> [] \<and>
   synthesis_worker (example_synthesizer ''level_3'' True) example_root_worker
     = (None, [Generate, BackTranslate, SemanticCheck])"
proof -
  let ?S = "example_synthesizer ''level_3'' True"
  let ?a = "example_root_worker"
  have 1: "0 < ATTEMPTS_PER_WORKER ?S" by (simp add: example_synthesizer_def)
  have 2: "\<not> stop_event_is_set ?S (node_name ?a) (worker_id ?a) 0"
    by (simp add: example_synthesizer_def)
  have 3: "run_synthesis_module (llm ?S (worker_id ?a)) (node_name ?a) (prompt_context ?a)
             (image_path ?a) = ''def x := 0 -- s''"
    by (simp add: example_synthesizer_def example_llm_def example_root_worker_def)
  have 4: "strip ''def x := 0 -- s'' \<noteq> []" by (simp add: strip_def isspace_def)
  have 5: "is_root_node ?a" "original_question ?a \<noteq> []"
    by (simp_all add: example_root_worker_def)
  have 6: "json_loads ?S (run_semantic_check (llm ?S (worker_id ?a)) (original_question ?a)
                   (run_back_translation (llm ?S (worker_id ?a)) (node_name ?a) ''def x := 0 -- s''
                      ''(Context omitted for pre-check)'')
                   (image_path ?a)) = Some (JObj [(''consistency_level'', JStr ''level_3'')])"
    by (simp add: example_synthesizer_def example_llm_def example_json_loads_def)
  have 7: "map_of [(''consistency_level'', JStr ''level_3'')] ''consistency_level'' = Some (JStr ''level_3'')"
    by simp
  from root_level3_fail_fast[OF 1 2 3 4 5 6 7] 1 5 show ?thesis
    by (simp add: example_synthesizer_def)
qed

section \<open>The failure marker in the final document\<close>

lemma is_substring_append: "is_substring sub (pre @ sub @ post)"
proof (induction pre)
  case Nil
  show ?case
  proof (cases "sub @ post")
    case Nil
    then show ?thesis by simp
  next
    case (Cons a list)
    have "take (length sub) (sub @ post) = sub" by simp
    with Cons show ?thesis by simp
  qed
next
  case (Cons c pre)
  then show ?case by simp
qed

lemma join_snoc: "join sep (bs @ [b]) = (if bs = [] then b else join sep bs @ sep @ b)"
  by (induction sep bs rule: join.induct) auto

lemma splitlines_from_step:
  "\<not> is_linebreak c \<Longrightarrow> splitlines_from cur (c # rest) = splitlines_from (cur @ [c]) rest"
  by (cases rest) (auto simp: is_linebreak_def)

lemma splitlines_from_prefix:
  "\<forall>c\<in>set p. \<not> is_linebreak c \<Longrightarrow> splitlines_from cur (p @ r) = splitlines_from (cur @ p) r"
  by (induction p arbitrary: cur) (simp_all add: splitlines_from_step)

lemma splitlines_from_first:
  "cur \<noteq> [] \<Longrightarrow> \<exists>l ls. splitlines_from cur r = (cur @ l) # ls"
proof (induction cur r rule: splitlines_from.induct)
  case (1 cur)
  then show ?case by simp
next
  case (2 cur c)
  then show ?case by simp
next
  case (3 cur c d cs)
  show ?case
  proof (cases "c = CHR 0x0D \<and> d = CHR 0x0A")
    case True
    then show ?thesis by simp
  next
    case False
    show ?thesis
    proof (cases "is_linebreak c")
      case True
      with False show ?thesis by simp
    next
      case lb: False
      from "3.IH"(3)[OF False lb] obtain l ls where "splitlines_from (cur @ [c]) (d # cs) = ((cur @ [c]) @ l) # ls"
        by auto
      with False lb show ?thesis by simp
    qed
  qed
qed

lemma strip_keeps_prefix:
  assumes "p \<noteq> []" "\<not> isspace (hd p)" "\<not> isspace (last p)"
  shows "\<exists>z. strip (p @ w) = p @ z"
proof -
  from assms(1,2) have l: "dropWhile isspace (p @ w) = p @ w" by (cases p) auto
  from assms(1,3) have r: "dropWhile isspace (rev p) = rev p"
    by (cases "rev p") (auto simp: last_rev[symmetric] simp del: last_rev)
  show ?thesis
  proof (cases "\<forall>c\<in>set w. isspace c")
    case True
    then have "dropWhile isspace (rev w @ rev p) = rev p" using r by (simp add: dropWhile_append)
    then show ?thesis by (simp add: strip_def l)
  next
    case False
    then have "dropWhile isspace (rev w @ rev p) = dropWhile isspace (rev w) @ rev p"
      by (auto simp: dropWhile_append)
    then show ?thesis by (simp add: strip_def l)
  qed
qed
lemma add_piece_marker:
  assumes p: "p \<noteq> []" "\<not> isspace (hd p)" "\<not> isspace (last p)" "\<forall>c\<in>set p. \<not> is_linebreak c"
    and noimp: "take 6 p \<noteq> ''import''" "6 \<le> length p"
  shows "\<exists>imps' z. add_piece (imps, blocks) (p @ w) = (imps', blocks @ [p @ z])"
proof -
  from p(1,2) have ne: "strip (p @ w) \<noteq> []"
    using strip_keeps_prefix[OF p(1,2,3), of w] by auto
  have "splitlines (p @ w) = splitlines_from p w"
    unfolding splitlines_def using splitlines_from_prefix[OF p(4), of "[]" w] by simp
  with splitlines_from_first[OF p(1), of w] obtain l ls where sl: "splitlines (p @ w) = (p @ l) # ls"
    by auto
  from p(1,2) have dw: "dropWhile isspace (p @ l) = p @ l" by (cases p) auto
  have ni: "\<not> is_import_line (p @ l)"
    using noimp by (simp add: is_import_line_def dw Let_def)
  obtain w' where j: "join [CHR 0x0A] (filter (\<lambda>ln. \<not> is_import_line ln) ((p @ l) # ls)) = p @ w'"
  proof (cases "filter (\<lambda>ln. \<not> is_import_line ln) ls")
    case Nil
    with ni have "join [CHR 0x0A] (filter (\<lambda>ln. \<not> is_import_line ln) ((p @ l) # ls)) = p @ l" by simp
    then show ?thesis by (rule that)
  next
    case (Cons y ys)
    with ni have "join [CHR 0x0A] (filter (\<lambda>ln. \<not> is_import_line ln) ((p @ l) # ls))
                  = p @ (l @ [CHR 0x0A] @ join [CHR 0x0A] (y # ys))" by simp
    then show ?thesis by (rule that)
  qed
  from strip_keeps_prefix[OF p(1,2,3), of w'] obtain z where z: "strip (p @ w') = p @ z" by auto
  have "add_piece (imps, blocks) (p @ w)
          = (imps @ map (\<lambda>ln. collapse_ws (strip ln)) (filter is_import_line ((p @ l) # ls)),
             blocks @ [p @ z])"
    unfolding add_piece_def using ne p(1) by (simp add: Let_def sl j z del: filter.simps)
  then show ?thesis by blast
qed


lemma final_code_has_marker:
  "is_substring ''-- FATAL:'' (build_final_code_string (pieces @ [''-- FATAL: '' @ nm @ '' synthesis failed.'']))"
proof -
  obtain imps blocks where f: "foldl add_piece (BASE_IMPORTS, []) pieces = (imps, blocks)"
    by (cases "foldl add_piece (BASE_IMPORTS, []) pieces")
  have m: "''-- FATAL: '' @ nm @ '' synthesis failed.'' = ''-- FATAL:'' @ ('' '' @ nm @ '' synthesis failed.'')"
    by simp
  have "\<exists>imps' z. add_piece (imps, blocks) (''-- FATAL:'' @ ('' '' @ nm @ '' synthesis failed.''))
          = (imps', blocks @ [''-- FATAL:'' @ z])"
    by (rule add_piece_marker) (simp_all add: isspace_def is_linebreak_def)
  then obtain imps' z where a: "add_piece (imps, blocks) (''-- FATAL: '' @ nm @ '' synthesis failed.'')
          = (imps', blocks @ [''-- FATAL:'' @ z])"
    unfolding m by blast
  have "build_final_code_string (pieces @ [''-- FATAL: '' @ nm @ '' synthesis failed.''])
        = join [CHR 0x0A] (dedup imps') @ [CHR 0x0A, CHR 0x0A] @
          join [CHR 0x0A, CHR 0x0A] (blocks @ [''-- FATAL:'' @ z])"
    unfolding build_final_code_string_def by (simp add: f a del: append.simps)
  also have "\<dots> = (join [CHR 0x0A] (dedup imps') @ [CHR 0x0A, CHR 0x0A] @
                     (if blocks = [] then [] else join [CHR 0x0A, CHR 0x0A] blocks @ [CHR 0x0A, CHR 0x0A]))
                    @ ''-- FATAL:'' @ z"
    by (simp add: join_snoc)
  finally show ?thesis by (simp only: is_substring_append)
qed

lemma attempts_success_compiled:
  "synthesis_attempts S a k attempt failed err calls = (Some code, calls') \<Longrightarrow>
   \<exists>full. Compile full \<in> set calls' \<and> comp_status (compile_code S full (worker_id a)) = ''success''"
proof (induction k arbitrary: attempt failed err calls)
  case 0
  then show ?case by simp
next
  case (Suc k)
  show ?case
  proof (cases "stop_event_is_set S (node_name a) (worker_id a) attempt")
    case True
    with Suc.prems show ?thesis by simp
  next
    case False
    let ?cur = "if attempt = 0
                then run_synthesis_module (llm S (worker_id a)) (node_name a) (prompt_context a) (image_path a)
                else run_reflection_module (llm S (worker_id a)) (node_name a) (prompt_context a) failed err"
    let ?calls1 = "calls @ [if attempt = 0 then Generate else Reflect]"
    show ?thesis
    proof (cases "strip ?cur = []")
      case True
      with False Suc.prems have "synthesis_attempts S a k (Suc attempt) ?cur ''Empty code from LLM.'' ?calls1 = (Some code, calls')"
        by (simp add: Let_def)
      then show ?thesis by (rule Suc.IH)
    next
      case ne: False
      let ?gated = "attempt = 0 \<and> original_question a \<noteq> [] \<and> is_root_node a"
      let ?calls2 = "?calls1 @ (if ?gated then [BackTranslate, SemanticCheck] else [])"
      let ?full = "full_code_to_compile (base_imports a) (dep_chunks a) ?cur"
      show ?thesis
      proof (cases "if ?gated then semantic_gate S a ?cur else Proceed")
        case Abort
        with False ne Suc.prems show ?thesis by (simp add: Let_def)
      next
        case Raise
        with False ne Suc.prems have "synthesis_attempts S a k (Suc attempt) failed ''AttributeError'' ?calls2 = (Some code, calls')"
          by (simp add: Let_def)
        then show ?thesis by (rule Suc.IH)
      next
        case Proceed
        show ?thesis
        proof (cases "comp_status (compile_code S ?full (worker_id a)) = ''success''")
          case True
          with False ne Proceed Suc.prems have "calls' = ?calls2 @ [Compile ?full]"
            by (simp add: Let_def)
          with True show ?thesis by auto
        next
          case nf: False
          with False ne Proceed Suc.prems have
            "synthesis_attempts S a k (Suc attempt) ?cur
               (case error_message (compile_code S ?full (worker_id a)) of
                  None \<Rightarrow> ''Unknown error'' | Some e \<Rightarrow> if e = [] then ''Unknown error'' else e)
               (?calls2 @ [Compile ?full]) = (Some code, calls')"
            by (simp add: Let_def)
          then show ?thesis by (rule Suc.IH)
        qed
      qed
    qed
  qed
qed

lemma worker_success_compiled:
  "fst (synthesis_worker S a) = Some code \<Longrightarrow>
   \<exists>full. Compile full \<in> set (snd (synthesis_worker S a)) \<and>
          comp_status (compile_code S full (worker_id a)) = ''success''"
  unfolding synthesis_worker_def
  using attempts_success_compiled[of S a "ATTEMPTS_PER_WORKER S" 0 "[]" "[]" "[]" code]
  by (cases "synthesis_attempts S a (ATTEMPTS_PER_WORKER S) 0 [] [] []") auto

lemma pool_without_accepted_compile:
  assumes "\<forall>i<CONCURRENT_WORKERS S. \<forall>full.
             Compile full \<in> set (snd (synthesis_worker S (a\<lparr>worker_id := i\<rparr>))) \<longrightarrow>
             comp_status (compile_code S full i) \<noteq> ''success''"
  shows "fst (run_worker_pool S a) = None"
proof -
  have none: "fst (synthesis_worker S (a\<lparr>worker_id := i\<rparr>)) = None" if "i < CONCURRENT_WORKERS S" for i
  proof (cases "fst (synthesis_worker S (a\<lparr>worker_id := i\<rparr>))")
    case None
    then show ?thesis .
  next
    case (Some code)
    from worker_success_compiled[OF Some] assms that show ?thesis by auto
  qed
  let ?outcomes = "map (\<lambda>i. synthesis_worker S (a\<lparr>worker_id := i\<rparr>)) [0..<CONCURRENT_WORKERS S]"
  have "filter truthy_result (map (\<lambda>i. fst (?outcomes ! i))
          (filter (\<lambda>i. i < CONCURRENT_WORKERS S) (completion_order S (node_name a)))) = []"
    by (auto simp: filter_empty_conv truthy_result_def none)
  then show ?thesis by (simp add: run_worker_pool_def Let_def)
qed

lemma synthesize_nodes_append:
  "synthesize_nodes S g img pre st0 = Some (False, st) \<Longrightarrow>
   synthesize_nodes S g img (pre @ rest) st0 = synthesize_nodes S g img rest st"
proof (induction S g img pre st0 rule: synthesize_nodes.induct)
  case (1 S g img st0)
  then show ?case by simp
next
  case (2 S g img n build_order st0)
  show ?case
  proof (cases "status (nodes g ! n)")
    case TO_EXPAND
    with 2 show ?thesis by simp
  next
    case GROUNDED
    show ?thesis
    proof (cases "grounded_definition (nodes g ! n) = PyStr ''VerifiedKB''")
      case False
      with GROUNDED "2.prems" "2.IH"(3)[OF GROUNDED False] show ?thesis by simp
    next
      case True
      show ?thesis
      proof (cases "recursively_paste_from_kb (recursion_limit S) S (name_key (name (nodes g ! n))) st0")
        case None
        with GROUNDED True "2.prems" show ?thesis by simp
      next
        case (Some st')
        with GROUNDED True "2.prems" "2.IH"(2)[OF GROUNDED True Some] show ?thesis by simp
      qed
    qed
  next
    case TO_SYNTHESIZE
    show ?thesis
    proof (cases "collect_transitive_synthesized_code S g n (synthesized_cache st0) (grounded_set st0)")
      case None
      with TO_SYNTHESIZE "2.prems" show ?thesis by simp
    next
      case (Some cm)
      obtain chunks missing where cm: "cm = (chunks, missing)" by (cases cm)
      show ?thesis
      proof (cases "missing \<noteq> []")
        case True
        with TO_SYNTHESIZE Some cm "2.prems" "2.IH"(4)[OF TO_SYNTHESIZE Some cm[symmetric] True]
        show ?thesis by simp
      next
        case nomiss: False
        show ?thesis
        proof (cases "collect_transitive_grounded g n (synthesized_cache st0) (grounded_set st0)")
          case None
          with TO_SYNTHESIZE Some cm nomiss "2.prems" show ?thesis by simp
        next
          case gn: (Some grounded_names)
          obtain h st' where r: "synthesize_node S g img n chunks grounded_names st0 = (h, st')"
            by (cases "synthesize_node S g img n chunks grounded_names st0")
          show ?thesis
          proof (cases h)
            case True
            with TO_SYNTHESIZE Some cm nomiss gn r "2.prems" show ?thesis by simp
          next
            case False
            with TO_SYNTHESIZE Some cm nomiss gn r "2.prems"
              "2.IH"(5)[OF TO_SYNTHESIZE Some cm[symmetric] nomiss gn r[symmetric, unfolded False]]
            show ?thesis by simp
          qed
        qed
      qed
    qed
  qed
qed


lemma synthesize_node_failed:
  assumes "fst (run_worker_pool S (node_worker_args g img n chunks grounded_names)) = None"
  shows "\<exists>st'. synthesize_node S g img n chunks grounded_names st = (True, st') \<and>
           final_code_pieces st' = final_code_pieces st @
             [''-- FATAL: '' @ strip (name (nodes g ! n)) @ '' synthesis failed.''] \<and>
           synthesized_cache st' = synthesized_cache st \<and> cache_writes st' = cache_writes st"
proof -
  obtain sc wc where r: "run_worker_pool S (node_worker_args g img n chunks grounded_names) = (sc, wc)"
    by (cases "run_worker_pool S (node_worker_args g img n chunks grounded_names)")
  with assms have "sc = None" by simp
  with r show ?thesis by (simp add: synthesize_node_def Let_def truthy_result_def)
qed

text \<open>
  C7. Take a run on a graph of the decomposition, and a node of the build order that needs
  synthesis and whose pool is launched: the nodes before it were processed without
  stopping, and nothing is missing from its dependency context. If none of the compile
  calls that the workers of this pool make is accepted, then the run stops at this node:
  it returns the pieces assembled so far followed by the failure marker that names the
  node, the cache as it was, and a final document that contains \<open>-- FATAL:\<close>; and the
  record of the problem carries this document and reports that compilation did not pass.
\<close>
theorem failed_pool_halts_run:
  assumes planner: "GoTPlanner_run fuel P q img = Some g"
    and order: "get_build_order g = Some (pre @ n # post)"
    and before: "synthesize_nodes S g img pre initial_synth_state = Some (False, st)"
    and needs: "status (nodes g ! n) = TO_SYNTHESIZE"
    and ctx:
      "collect_transitive_synthesized_code S g n (synthesized_cache st) (grounded_set st)
         = Some (chunks, [])"
      "collect_transitive_grounded g n (synthesized_cache st) (grounded_set st)
         = Some grounded_names"
    and rejected:
      "\<forall>i<CONCURRENT_WORKERS S. \<forall>full.
         Compile full \<in> set (snd (synthesis_worker S
                                   ((node_worker_args g img n chunks grounded_names)\<lparr>worker_id := i\<rparr>)))
         \<longrightarrow> comp_status (compile_code S full i) \<noteq> ''success''"
  shows "\<exists>code st'. GoTSynthesizer_run S g img = Some (code, st') \<and>
           final_code_pieces st' = final_code_pieces st @
             [''-- FATAL: '' @ strip (name (nodes g ! n)) @ '' synthesis failed.''] \<and>
           synthesized_cache st' = synthesized_cache st \<and>
           code = build_final_code_string (final_code_pieces st') \<and>
           is_substring ''-- FATAL:'' code \<and>
           (\<exists>r. process_single_problem fuel P S A q img check_img f writable = Some (r, f) \<and>
                \<not> compilation_passed r \<and> generated_code r = code)"
proof -
  from rejected have "fst (run_worker_pool S (node_worker_args g img n chunks grounded_names)) = None"
    by (rule pool_without_accepted_compile)
  from synthesize_node_failed[OF this, of st] obtain st' where
    sn: "synthesize_node S g img n chunks grounded_names st = (True, st')"
    and pc: "final_code_pieces st' = final_code_pieces st @
             [''-- FATAL: '' @ strip (name (nodes g ! n)) @ '' synthesis failed.'']"
    and ca: "synthesized_cache st' = synthesized_cache st"
    by blast
  have "synthesize_nodes S g img (n # post) st = Some (True, st')"
    using needs ctx sn by simp
  with synthesize_nodes_append[OF before, of "n # post"]
  have "synthesize_nodes S g img (pre @ n # post) initial_synth_state = Some (True, st')" by simp
  with order have run: "GoTSynthesizer_run S g img = Some (build_final_code_string (final_code_pieces st'), st')"
    by (simp add: GoTSynthesizer_run_def)
  have mark: "is_substring ''-- FATAL:'' (build_final_code_string (final_code_pieces st'))"
    unfolding pc by (rule final_code_has_marker)
  have "\<exists>r. process_single_problem fuel P S A q img check_img f writable = Some (r, f) \<and>
            \<not> compilation_passed r \<and> generated_code r = build_final_code_string (final_code_pieces st')"
    using planner run mark by (simp add: process_single_problem_def Let_def)
  with run pc ca mark show ?thesis by blast
qed

lemma sibling_run:
  "GoTPlanner_run 5 (table_planner [(''s'', [''a'', ''b'']), (''a'', [''c'']), (''b'', [''C ''])])
      ''s'' None = Some sibling_graph"
  using sibling_nodes by (auto simp: sibling_graph_def)

text \<open>
  The theorem of C7 for the problem with two siblings and a compiler that rejects
  everything: the run stops at the node \<open>c\<close>, the first of the build order.
\<close>
theorem failed_pool_halts_run_witness:
  "GoTPlanner_run 5 (table_planner [(''s'', [''a'', ''b'']), (''a'', [''c'']), (''b'', [''C ''])])
      ''s'' None = Some sibling_graph \<and>
   get_build_order sibling_graph = Some ([] @ 3 # [1, 2, 0]) \<and>
   status (nodes sibling_graph ! 3) = TO_SYNTHESIZE \<and>
   collect_transitive_synthesized_code (example_synthesizer ''level_1'' False) sibling_graph 3 [] {}
     = Some ([], []) \<and>
   failing_problem \<noteq> None \<and>
   \<not> compilation_passed (fst (the failing_problem)) \<and>
   is_substring ''-- FATAL:'' (generated_code (fst (the failing_problem)))"
proof -
  let ?S = "example_synthesizer ''level_1'' False"
  have o: "get_build_order sibling_graph = Some ([] @ 3 # [1, 2, 0])"
    using sibling_order by simp
  have b: "synthesize_nodes ?S sibling_graph None [] initial_synth_state = Some (False, initial_synth_state)"
    by simp
  have s: "status (nodes sibling_graph ! 3) = TO_SYNTHESIZE" by (simp add: sibling_nodes)
  have c1: "collect_transitive_synthesized_code ?S sibling_graph 3
              (synthesized_cache initial_synth_state) (grounded_set initial_synth_state) = Some ([], [])"
    by (simp add: collect_transitive_synthesized_code_def sibling_nodes initial_synth_state_def)
  have c2: "collect_transitive_grounded sibling_graph 3
              (synthesized_cache initial_synth_state) (grounded_set initial_synth_state) = Some []"
    by (simp add: collect_transitive_grounded_def sibling_nodes initial_synth_state_def dedup_def)
  have r: "\<forall>i<CONCURRENT_WORKERS ?S. \<forall>full.
         Compile full \<in> set (snd (synthesis_worker ?S
                                   ((node_worker_args sibling_graph None 3 [] [])\<lparr>worker_id := i\<rparr>)))
         \<longrightarrow> comp_status (compile_code ?S full i) \<noteq> ''success''"
    by (simp add: example_synthesizer_def)
  from failed_pool_halts_run[OF sibling_run o b s c1 c2 r, of "example_aligner ''level_1''" None NoFile True]
  obtain code r where
    m: "is_substring ''-- FATAL:'' code" and fp: "failing_problem = Some (r, NoFile)"
    and np: "\<not> compilation_passed r" and gc: "generated_code r = code"
    unfolding failing_problem_def by blast
  have "failing_problem \<noteq> None \<and> \<not> compilation_passed (fst (the failing_problem)) \<and>
             is_substring ''-- FATAL:'' (generated_code (fst (the failing_problem)))"
    unfolding fp using m np gc by simp
  with sibling_run o s c1 show ?thesis by (simp add: initial_synth_state_def)
qed

end
